theory Spec2Isabelle
  imports Main "HOL-Library.Multiset" "HOL-Library.Product_Lexorder"
begin

section \<open>Cards, seats and the table of \<^verbatim>\<open>bhabhi_game.py\<close>\<close>

text \<open>
  The thirteen entries of \<^verbatim>\<open>RANKS\<close> and the four of \<^verbatim>\<open>SUITS\<close>, in the order of the
  source. \<^verbatim>\<open>RANK_VALUE\<close> maps the rank at position \<open>i\<close> of \<^verbatim>\<open>RANKS\<close> to \<open>i + 2\<close>.
\<close>

datatype rank = R2 | R3 | R4 | R5 | R6 | R7 | R8 | R9 | R10 | Jack | Queen | King | Ace

datatype suit = Spades | Hearts | Diamonds | Clubs

definition RANKS :: "rank list" where
  "RANKS = [R2, R3, R4, R5, R6, R7, R8, R9, R10, Jack, Queen, King, Ace]"

definition SUITS :: "suit list" where
  "SUITS = [Spades, Hearts, Diamonds, Clubs]"

fun RANK_VALUE :: "rank \<Rightarrow> nat" where
  "RANK_VALUE R2 = 2"
| "RANK_VALUE R3 = 3"
| "RANK_VALUE R4 = 4"
| "RANK_VALUE R5 = 5"
| "RANK_VALUE R6 = 6"
| "RANK_VALUE R7 = 7"
| "RANK_VALUE R8 = 8"
| "RANK_VALUE R9 = 9"
| "RANK_VALUE R10 = 10"
| "RANK_VALUE Jack = 11"
| "RANK_VALUE Queen = 12"
| "RANK_VALUE King = 13"
| "RANK_VALUE Ace = 14"

text \<open>\<^verbatim>\<open>SUITS.index(s)\<close>, used by the sort key of a hand.\<close>

fun suit_index :: "suit \<Rightarrow> nat" where
  "suit_index Spades = 0"
| "suit_index Hearts = 1"
| "suit_index Diamonds = 2"
| "suit_index Clubs = 3"

record card =
  rank :: rank
  suit :: suit

definition Card :: "rank \<Rightarrow> suit \<Rightarrow> card" where
  "Card r s = \<lparr>rank = r, suit = s\<rparr>"

text \<open>The attribute \<^verbatim>\<open>Card.value\<close>, computed from the rank when the card is made.\<close>

definition card_value :: "card \<Rightarrow> nat" where
  "card_value c = RANK_VALUE (rank c)"

definition is_ace_of_spades :: "card \<Rightarrow> bool" where
  "is_ace_of_spades c \<longleftrightarrow> rank c = Ace \<and> suit c = Spades"

definition full_deck :: "card list" where
  "full_deck = concat (map (\<lambda>s. map (\<lambda>r. Card r s) RANKS) SUITS)"

record player =
  name :: string
  is_human :: bool
  hand :: "card list"
  is_active :: bool
  finished_rank :: "nat option"
  just_picked_up :: bool
  avoid_suit :: "suit option"

definition card_count :: "player \<Rightarrow> nat" where
  "card_count p = length (hand p)"

text \<open>
  \<^verbatim>\<open>Player.sort_hand\<close>: Python's list sort is stable, and so is \<^const>\<open>sort_key\<close>; the key is
  the pair \<^verbatim>\<open>(SUITS.index(c.suit), c.value)\<close>, compared lexicographically.
\<close>

definition sort_hand :: "card list \<Rightarrow> card list" where
  "sort_hand cs = sort_key (\<lambda>c. (suit_index (suit c), card_value c)) cs"

definition has_suit :: "player \<Rightarrow> suit \<Rightarrow> bool" where
  "has_suit p s \<longleftrightarrow> (\<exists>c \<in> set (hand p). suit c = s)"

definition pick_up :: "player \<Rightarrow> card list \<Rightarrow> player" where
  "pick_up p cards = p\<lparr>hand := sort_hand (hand p @ cards)\<rparr>"

subsection \<open>Python list indexing\<close>

text \<open>
  A card index is a Python integer. \<^verbatim>\<open>xs[i]\<close> and \<^verbatim>\<open>xs.pop(i)\<close> accept
  \<open>- len \<le> i < len\<close>, a negative index counting from the end, and raise
  \<^verbatim>\<open>IndexError\<close> for every other index.
\<close>

datatype error = IndexError | ZeroDivisionError | ValueError

definition py_index :: "'a list \<Rightarrow> int \<Rightarrow> nat option" where
  "py_index xs i =
     (let n = int (length xs)
      in if 0 \<le> i \<and> i < n then Some (nat i)
         else if - n \<le> i \<and> i < 0 then Some (nat (n + i))
         else None)"

definition py_get :: "'a list \<Rightarrow> int \<Rightarrow> error + 'a" where
  "py_get xs i = (case py_index xs i of None \<Rightarrow> Inl IndexError | Some k \<Rightarrow> Inr (xs ! k))"

text \<open>
  \<^verbatim>\<open>min(xs, key=f)\<close> and \<^verbatim>\<open>max(xs, key=f)\<close> on a non-empty list return the first element
  with the least (greatest) key.
\<close>

definition py_min_key :: "('a \<Rightarrow> nat) \<Rightarrow> 'a \<Rightarrow> 'a list \<Rightarrow> 'a" where
  "py_min_key f x xs = foldl (\<lambda>m y. if f y < f m then y else m) x xs"

definition py_max_key :: "('a \<Rightarrow> nat) \<Rightarrow> 'a \<Rightarrow> 'a list \<Rightarrow> 'a" where
  "py_max_key f x xs = foldl (\<lambda>m y. if f m < f y then y else m) x xs"

subsection \<open>The game object\<close>

text \<open>
  The fields of \<^verbatim>\<open>Game\<close> that the rule engine reads or writes. Seat numbers are natural
  numbers; \<^verbatim>\<open>active_index\<close> is optional because \<^verbatim>\<open>next_active_index\<close> may return
  \<^verbatim>\<open>None\<close>. Clock readings, fonts, sounds and the geometry of the moving card belong to
  the presentation and are left out.
\<close>

datatype gstate = Setup | Dealing | Play | Finished | Paused | ShowingTrick

record game =
  state :: gstate
  players :: "player list"
  player_count :: nat
  deck :: "card list"
  discard_pile :: "card list"
  trick_cards :: "(nat \<times> card) list"
  leader_index :: nat
  active_index :: "nat option"
  required_suit :: "suit option"
  ranks_assigned :: nat
  finish_order :: "(string \<times> nat) list"
  showing_trick :: bool
  last_played_cards :: "(nat \<times> card) list"
  pending_tochoo :: bool
  last_trick_suit :: "suit option"
  warning_text :: string
  paused :: bool
  pause_button_text :: string
  first_move :: bool
  animating :: bool
  animating_card :: "card option"
  resolve_after_animation :: "bool option"

subsection \<open>Pause\<close>

definition toggle_pause :: "game \<Rightarrow> game" where
  "toggle_pause g =
     (if state g = Play \<or> state g = ShowingTrick then
        (let g1 = g\<lparr>paused := \<not> paused g\<rparr>;
             g2 = g1\<lparr>pause_button_text := (if paused g1 then ''Resume'' else ''Pause'')\<rparr>
         in if paused g2 then g2\<lparr>state := Paused\<rparr>
            else g2\<lparr>state := (if \<not> showing_trick g2 then Play else ShowingTrick)\<rparr>)
      else g)"

subsection \<open>Legality of a card\<close>

definition is_card_playable :: "game \<Rightarrow> nat \<Rightarrow> int \<Rightarrow> error + bool" where
  "is_card_playable g player_idx card_index =
     (if length (players g) \<le> player_idx then Inl IndexError
      else
        let p = players g ! player_idx in
        if \<not> is_active p then Inr False
        else if required_suit g = None \<and> first_move g \<and> Some player_idx = active_index g then
          (case py_get (hand p) card_index of
             Inl e \<Rightarrow> Inl e
           | Inr c \<Rightarrow> Inr (is_ace_of_spades c))
        else
          (case required_suit g of
             None \<Rightarrow> Inr True
           | Some s \<Rightarrow>
               (let has_req = has_suit p s in
                case py_get (hand p) card_index of
                  Inl e \<Rightarrow> Inl e
                | Inr c \<Rightarrow> if has_req then Inr (suit c = s) else Inr True)))"

text \<open>\<^verbatim>\<open>playable_indices_for_player\<close>: the indices of the hand that pass the check, in order.\<close>

definition playable_indices_for_player :: "game \<Rightarrow> nat \<Rightarrow> error + nat list" where
  "playable_indices_for_player g player_idx =
     (if length (players g) \<le> player_idx then Inl IndexError
      else Inr (filter (\<lambda>i. is_card_playable g player_idx (int i) = Inr True)
                  [0 ..< length (hand (players g ! player_idx))]))"

subsection \<open>Turn order and the end of the game\<close>

text \<open>\<^verbatim>\<open>get_active_players_indices\<close> and \<^verbatim>\<open>count_active_players\<close>.\<close>

definition get_active_players_indices :: "game \<Rightarrow> nat list" where
  "get_active_players_indices g =
     filter (\<lambda>i. is_active (players g ! i)) [0 ..< length (players g)]"

definition count_active_players :: "game \<Rightarrow> nat" where
  "count_active_players g = length (filter is_active (players g))"

text \<open>
  The \<^verbatim>\<open>while\<close> loop of \<^verbatim>\<open>next_active_index\<close>, with its counter \<^verbatim>\<open>loop_protect\<close>. The
  index read is always below the number of seats, because it is reduced modulo that number.
\<close>

function next_active_loop :: "player list \<Rightarrow> nat \<Rightarrow> nat \<Rightarrow> nat" where
  "next_active_loop ps i loop_protect =
     (if \<not> is_active (ps ! i) \<and> loop_protect < length ps
      then next_active_loop ps ((i + 1) mod length ps) (loop_protect + 1)
      else i)"
  by pat_completeness auto
termination
  by (relation "measure (\<lambda>(ps, i, loop_protect). length ps - loop_protect)") auto

declare next_active_loop.simps [simp del]

definition next_active_index :: "player list \<Rightarrow> nat \<Rightarrow> nat option" where
  "next_active_index ps current =
     (let n = length ps
      in if n = 0 then None else Some (next_active_loop ps ((current + 1) mod n) 0))"

text \<open>
  The loop that both \<^verbatim>\<open>check_game_end\<close> and \<^verbatim>\<open>actually_resolve_trick\<close> run over the seats:
  a seat that passes the test gets the next rank, is made inactive and is appended to the
  finish order. The result is the seats, the rank counter and the finish order.
\<close>

fun assign_ranks ::
  "(player \<Rightarrow> bool) \<Rightarrow> player list \<Rightarrow> nat \<Rightarrow> (string \<times> nat) list
     \<Rightarrow> player list \<times> nat \<times> (string \<times> nat) list" where
  "assign_ranks t [] r fo = ([], r, fo)"
| "assign_ranks t (p # ps) r fo =
     (if t p then
        (case assign_ranks t ps (r + 1) (fo @ [(name p, r + 1)]) of
           (ps', r', fo') \<Rightarrow> (p\<lparr>finished_rank := Some (r + 1), is_active := False\<rparr> # ps', r', fo'))
      else
        (case assign_ranks t ps r fo of (ps', r', fo') \<Rightarrow> (p # ps', r', fo')))"

definition check_game_end :: "game \<Rightarrow> game" where
  "check_game_end g =
     (if length (filter is_active (players g)) \<le> 1 then
        (case assign_ranks (\<lambda>p. is_active p \<and> finished_rank p = None)
                (players g) (ranks_assigned g) (finish_order g) of
           (ps', r', fo') \<Rightarrow>
             g\<lparr>players := ps', ranks_assigned := r', finish_order := fo', state := Finished\<rparr>)
      else g)"

subsection \<open>Resolving a trick\<close>

text \<open>\<^verbatim>\<open>resolve_trick\<close> only records the trick for display and moves to \<^verbatim>\<open>showing_trick\<close>.\<close>

definition resolve_trick :: "game \<Rightarrow> bool \<Rightarrow> game" where
  "resolve_trick g tochoo_occurred =
     (if trick_cards g = [] then g
      else g\<lparr>last_trick_suit := required_suit g,
             showing_trick := True,
             last_played_cards := trick_cards g,
             pending_tochoo := tochoo_occurred,
             state := ShowingTrick\<rparr>)"

text \<open>The entries of the trick whose card is of the required suit.\<close>

definition suited_cards :: "game \<Rightarrow> (nat \<times> card) list" where
  "suited_cards g = filter (\<lambda>t. Some (suit (snd t)) = required_suit g) (trick_cards g)"

text \<open>
  \<^verbatim>\<open>max(suited, key=lambda t: t[1].value)[0]\<close>, or the leader when no played card is of the
  required suit. Both branches of \<^verbatim>\<open>actually_resolve_trick\<close> compute this seat.
\<close>

definition trick_taker :: "game \<Rightarrow> nat" where
  "trick_taker g =
     (case suited_cards g of
        [] \<Rightarrow> leader_index g
      | t # ts \<Rightarrow> fst (py_max_key (\<lambda>t. card_value (snd t)) t ts))"

text \<open>
  \<^verbatim>\<open>actually_resolve_trick\<close>, in the order of its statements. The argument \<open>shuffle\<close>
  stands for the call of \<^verbatim>\<open>random.shuffle\<close> on the cards picked up: it returns some
  permutation of its argument.

  First the trick is awarded: in a tochoo the taker picks the cards up and is marked, in a
  clean trick the cards go to the discard pile; either way the taker leads and moves next.
\<close>

definition award_trick :: "(card list \<Rightarrow> card list) \<Rightarrow> game \<Rightarrow> bool \<Rightarrow> nat \<Rightarrow> game" where
  "award_trick shuffle g tochoo_occurred taker =
     (if tochoo_occurred then
        (let pickup_cards = shuffle (map snd (trick_cards g));
             p1 = pick_up (players g ! taker) pickup_cards;
             p2 = p1\<lparr>just_picked_up := True, avoid_suit := last_trick_suit g\<rparr>
         in g\<lparr>players := (players g)[taker := p2],
               leader_index := taker,
               active_index := Some taker\<rparr>)
      else
        g\<lparr>discard_pile := discard_pile g @ map snd (trick_cards g),
          leader_index := taker,
          active_index := Some taker\<rparr>)"

text \<open>Then every active seat with an empty hand is ranked.\<close>

definition rank_empty_hands :: "game \<Rightarrow> game" where
  "rank_empty_hands g =
     (case assign_ranks (\<lambda>p. is_active p \<and> length (hand p) = 0)
             (players g) (ranks_assigned g) (finish_order g) of
        (ps', r', fo') \<Rightarrow> g\<lparr>players := ps', ranks_assigned := r', finish_order := fo'\<rparr>)"

text \<open>Last, after \<^verbatim>\<open>check_game_end\<close>, the display of the trick is closed.\<close>

definition close_trick :: "game \<Rightarrow> game" where
  "close_trick g =
     (let g1 = g\<lparr>showing_trick := False, last_played_cards := [],
                 pending_tochoo := False, last_trick_suit := None\<rparr>
      in if state g1 \<noteq> Finished then g1\<lparr>state := Play\<rparr> else g1)"

text \<open>
  The second argument of \<^verbatim>\<open>actually_resolve_trick\<close> is \<^verbatim>\<open>tochoo_occurred\<close>, with \<open>None\<close>
  for the default. \<^verbatim>\<open>self.players[pickup_player]\<close> raises when the taker is not a seat.
\<close>

definition actually_resolve_trick ::
  "(card list \<Rightarrow> card list) \<Rightarrow> game \<Rightarrow> bool option \<Rightarrow> error + game" where
  "actually_resolve_trick shuffle g tochoo_arg =
     (let tochoo_occurred = (case tochoo_arg of None \<Rightarrow> pending_tochoo g | Some b \<Rightarrow> b);
          taker = trick_taker g
      in
        if tochoo_occurred \<and> length (players g) \<le> taker then Inl IndexError
        else
          let g1 = award_trick shuffle g tochoo_occurred taker;
              g2 = g1\<lparr>trick_cards := [], required_suit := None\<rparr>;
              g3 = rank_empty_hands g2;
              g4 = check_game_end g3
          in Inr (close_trick g4))"

subsection \<open>The computer's choice\<close>

text \<open>
  \<^verbatim>\<open>min(idxs, key=lambda i: p.hand[i].value)\<close> and the same with \<^verbatim>\<open>max\<close>, on a list of
  indices of the hand that is known not to be empty.
\<close>

definition lowest_index :: "card list \<Rightarrow> nat list \<Rightarrow> nat" where
  "lowest_index h idxs = py_min_key (\<lambda>i. card_value (h ! i)) (hd idxs) (tl idxs)"

definition highest_index :: "card list \<Rightarrow> nat list \<Rightarrow> nat" where
  "highest_index h idxs = py_max_key (\<lambda>i. card_value (h ! i)) (hd idxs) (tl idxs)"

definition indices_where :: "(card \<Rightarrow> bool) \<Rightarrow> card list \<Rightarrow> nat list" where
  "indices_where t h = filter (\<lambda>i. t (h ! i)) [0 ..< length h]"

definition cpu_choose_card_index :: "game \<Rightarrow> nat \<Rightarrow> error + nat option" where
  "cpu_choose_card_index g player_idx =
     (if length (players g) \<le> player_idx then Inl IndexError
      else
        let p = players g ! player_idx; h = hand p in
        if h = [] then Inr None
        else
          let avoid = (if just_picked_up p then avoid_suit p else None);
              non_avoid = indices_where (\<lambda>c. Some (suit c) \<noteq> avoid) h
          in
            (case required_suit g of
               None \<Rightarrow>
                 (let aces = indices_where is_ace_of_spades h in
                  if first_move g \<and> Some player_idx = active_index g \<and> aces \<noteq> []
                  then Inr (Some (hd aces))
                  else if avoid \<noteq> None \<and> non_avoid \<noteq> []
                  then Inr (Some (lowest_index h non_avoid))
                  else Inr (Some (lowest_index h [0 ..< length h])))
             | Some s \<Rightarrow>
                 (let same_suit_indices = indices_where (\<lambda>c. suit c = s) h in
                  if same_suit_indices \<noteq> []
                  then Inr (Some (lowest_index h same_suit_indices))
                  else if avoid \<noteq> None \<and> non_avoid \<noteq> []
                  then Inr (Some (highest_index h non_avoid))
                  else Inr (Some (highest_index h [0 ..< length h])))))"

subsection \<open>Playing a card\<close>

text \<open>The two lines that forget a pickup once the seat has played.\<close>

definition clear_pickup :: "player \<Rightarrow> player" where
  "clear_pickup p =
     (if just_picked_up p then p\<lparr>just_picked_up := False, avoid_suit := None\<rparr> else p)"

text \<open>
  The branch of \<^verbatim>\<open>attempt_play_card\<close> for a seat that leads (no required suit). The card
  has already been read from the hand at \<^verbatim>\<open>card_index\<close>, so \<^verbatim>\<open>hand.pop(card_index)\<close> succeeds
  and removes position \<open>k\<close>, the index counted from the front.
\<close>

definition play_as_leader :: "game \<Rightarrow> nat \<Rightarrow> nat \<Rightarrow> game" where
  "play_as_leader g player_idx k =
     (let p = players g ! player_idx;
          played_card = hand p ! k;
          p1 = p\<lparr>hand := take k (hand p) @ drop (Suc k) (hand p)\<rparr>;
          g1 = g\<lparr>players := (players g)[player_idx := p1],
                 trick_cards := trick_cards g @ [(player_idx, played_card)],
                 animating := True,
                 animating_card := Some played_card\<rparr>;
          g2 = (if first_move g1 then g1\<lparr>first_move := False\<rparr> else g1);
          g3 = g2\<lparr>required_suit := Some (suit played_card),
                  active_index := next_active_index (players g2) player_idx\<rparr>;
          g4 = (if card_count p1 = 0 then
                  check_game_end
                    (g3\<lparr>ranks_assigned := ranks_assigned g3 + 1,
                        players := (players g3)[player_idx :=
                           p1\<lparr>finished_rank := Some (ranks_assigned g3 + 1),
                              is_active := False\<rparr>],
                        finish_order := finish_order g3 @ [(name p1, ranks_assigned g3 + 1)]\<rparr>)
                else g3)
      in g4\<lparr>players := (players g4)[player_idx := clear_pickup (players g4 ! player_idx)]\<rparr>)"

text \<open>The branch for a seat that plays into a trick already led with suit \<open>s\<close>.\<close>

definition play_as_follower :: "game \<Rightarrow> nat \<Rightarrow> nat \<Rightarrow> suit \<Rightarrow> bool \<Rightarrow> game" where
  "play_as_follower g player_idx k s had_required =
     (let p = players g ! player_idx;
          played_card = hand p ! k;
          p1 = p\<lparr>hand := take k (hand p) @ drop (Suc k) (hand p)\<rparr>;
          g1 = g\<lparr>players := (players g)[player_idx := p1],
                 trick_cards := trick_cards g @ [(player_idx, played_card)],
                 animating := True,
                 animating_card := Some played_card\<rparr>
      in
        if suit played_card \<noteq> s \<and> \<not> had_required then
          g1\<lparr>players := (players g1)[player_idx := clear_pickup (players g1 ! player_idx)],
             resolve_after_animation := Some True\<rparr>
        else
          let g2 = g1\<lparr>active_index := next_active_index (players g1) player_idx\<rparr> in
          if active_index g2 = Some (leader_index g2)
             \<and> count_active_players g2 \<le> length (trick_cards g2)
          then g2\<lparr>resolve_after_animation := Some False\<rparr>
          else g2\<lparr>players := (players g2)[player_idx := clear_pickup (players g2 ! player_idx)]\<rparr>)"

definition attempt_play_card :: "game \<Rightarrow> nat \<Rightarrow> int \<Rightarrow> error + game" where
  "attempt_play_card g player_idx card_index =
     (if animating g then Inr g
      else if length (players g) \<le> player_idx then Inl IndexError
      else
        let p = players g ! player_idx in
        if Some player_idx \<noteq> active_index g then Inr g
        else if \<not> is_active p then Inr g
        else
          let had_required = (case required_suit g of None \<Rightarrow> False | Some s \<Rightarrow> has_suit p s) in
          (case py_index (hand p) card_index of
             None \<Rightarrow> Inl IndexError
           | Some k \<Rightarrow>
               (let c = hand p ! k in
                case required_suit g of
                  None \<Rightarrow>
                    if first_move g \<and> Some player_idx = active_index g \<and> \<not> is_ace_of_spades c
                    then Inr (g\<lparr>warning_text := ''Game must start with Ace of Spades!''\<rparr>)
                    else Inr (play_as_leader g player_idx k)
                | Some s \<Rightarrow>
                    if had_required \<and> suit c \<noteq> s
                    then Inr (g\<lparr>warning_text := ''You must follow suit!''\<rparr>)
                    else Inr (play_as_follower g player_idx k s had_required))))"

text \<open>
  The end of the card's flight, from \<^verbatim>\<open>draw_play\<close>: the hold is released and a queued
  resolution is handed to \<^verbatim>\<open>resolve_trick\<close>.
\<close>

definition animation_finished :: "game \<Rightarrow> game" where
  "animation_finished g =
     (if animating g then
        (let g1 = g\<lparr>animating := False, animating_card := None\<rparr> in
         case resolve_after_animation g1 of
           None \<Rightarrow> g1
         | Some tochoo_bool \<Rightarrow> resolve_trick (g1\<lparr>resolve_after_animation := None\<rparr>) tochoo_bool)
      else g)"

subsection \<open>A new game and the deal\<close>

text \<open>\<^verbatim>\<open>Player.__init__\<close> and the rule-engine fields set by \<^verbatim>\<open>Game.__init__\<close>.\<close>

definition new_player :: "string \<Rightarrow> bool \<Rightarrow> player" where
  "new_player nm human =
     \<lparr>name = nm, is_human = human, hand = [], is_active = True, finished_rank = None,
      just_picked_up = False, avoid_suit = None\<rparr>"

definition new_game :: game where
  "new_game =
     \<lparr>state = Setup, players = [], player_count = 4, deck = [], discard_pile = [],
      trick_cards = [], leader_index = 0, active_index = Some 0, required_suit = None,
      ranks_assigned = 0, finish_order = [], showing_trick = False, last_played_cards = [],
      pending_tochoo = False, last_trick_suit = None, warning_text = [], paused = False,
      pause_button_text = ''Pause'', first_move = False, animating = False,
      animating_card = None, resolve_after_animation = None\<rparr>"

text \<open>
  \<^verbatim>\<open>start_game\<close>. Its first argument is the deck after \<^verbatim>\<open>random.shuffle\<close>, its second the
  number drawn by \<^verbatim>\<open>random.randrange\<close> when no seat holds the Ace of Spades.
\<close>

definition deal_counts :: "nat \<Rightarrow> nat \<Rightarrow> nat list" where
  "deal_counts len pc =
     (let base = len div pc; extra = len - base * pc
      in map (\<lambda>i. if i < extra then base + 1 else base) [0 ..< pc])"

fun deal :: "card list \<Rightarrow> nat list \<Rightarrow> player list \<Rightarrow> error + player list" where
  "deal d counts [] = Inr []"
| "deal d [] (p # ps) = Inl IndexError"
| "deal d (n # counts) (p # ps) =
     (if length d < n then Inl IndexError
      else
        (case deal (drop n d) counts ps of
           Inl e \<Rightarrow> Inl e
         | Inr ps' \<Rightarrow>
             Inr (p\<lparr>hand := sort_hand (take n d), is_active := True, finished_rank := None,
                    just_picked_up := False, avoid_suit := None\<rparr> # ps')))"

fun find_starter :: "player list \<Rightarrow> nat \<Rightarrow> nat option" where
  "find_starter [] i = None"
| "find_starter (p # ps) i =
     (if \<exists>c \<in> set (hand p). is_ace_of_spades c then Some i else find_starter ps (Suc i))"

definition start_game :: "card list \<Rightarrow> nat \<Rightarrow> game \<Rightarrow> error + game" where
  "start_game shuffled drawn g =
     (if player_count g = 0 then Inl ZeroDivisionError
      else
        (case deal shuffled (deal_counts (length shuffled) (player_count g)) (players g) of
           Inl e \<Rightarrow> Inl e
         | Inr ps \<Rightarrow>
             (case find_starter ps 0 of
                None \<Rightarrow>
                  if ps = [] then Inl ValueError
                  else Inr (g\<lparr>state := Play, players := ps, deck := shuffled, discard_pile := [],
                             trick_cards := [], leader_index := drawn mod length ps,
                             active_index := Some (drawn mod length ps), required_suit := None,
                             ranks_assigned := 0, finish_order := [], showing_trick := False,
                             pending_tochoo := False, last_trick_suit := None,
                             warning_text := [], paused := False, pause_button_text := ''Pause'',
                             first_move := True, animating := False, animating_card := None,
                             resolve_after_animation := None\<rparr>)
              | Some starter \<Rightarrow>
                  Inr (g\<lparr>state := Play, players := ps, deck := shuffled, discard_pile := [],
                        trick_cards := [], leader_index := starter,
                        active_index := Some starter, required_suit := None,
                        ranks_assigned := 0, finish_order := [], showing_trick := False,
                        pending_tochoo := False, last_trick_suit := None,
                        warning_text := [], paused := False, pause_button_text := ''Pause'',
                        first_move := True, animating := False, animating_card := None,
                        resolve_after_animation := None\<rparr>))))"

subsection \<open>The states a game passes through\<close>

text \<open>
  One step of a game is one call of \<^verbatim>\<open>attempt_play_card\<close>, the end of a card's flight,
  one call of \<^verbatim>\<open>actually_resolve_trick\<close> (with any outcome of the shuffle) or one call of
  \<^verbatim>\<open>toggle_pause\<close>. The calls may come in any order and with any arguments, so every run
  of the main loop between two deals is a sequence of steps.
\<close>

inductive step :: "game \<Rightarrow> game \<Rightarrow> bool" where
  played: "attempt_play_card g i ci = Inr g' \<Longrightarrow> step g g'"
| landed: "step g (animation_finished g)"
| resolved:
    "(\<And>xs. mset (sh xs) = mset xs) \<Longrightarrow> actually_resolve_trick sh g t = Inr g' \<Longrightarrow> step g g'"
| toggled: "step g (toggle_pause g)"

text \<open>
  A state is reachable when it is the result of dealing the shuffled full deck to three to
  six seats, or follows from a reachable state by a step.
\<close>

inductive reachable :: "game \<Rightarrow> bool" where
  dealt:
    "mset d = mset full_deck \<Longrightarrow> length (players g0) = player_count g0
       \<Longrightarrow> 3 \<le> player_count g0 \<Longrightarrow> player_count g0 \<le> 6
       \<Longrightarrow> start_game d drawn g0 = Inr g \<Longrightarrow> reachable g"
| stepped: "reachable g \<Longrightarrow> step g g' \<Longrightarrow> reachable g'"

text \<open>A call of \<^verbatim>\<open>attempt_play_card\<close> that put a card on the table.\<close>

definition play_accepted :: "game \<Rightarrow> nat \<Rightarrow> int \<Rightarrow> game \<Rightarrow> bool" where
  "play_accepted g i ci g' \<longleftrightarrow>
     attempt_play_card g i ci = Inr g' \<and> length (trick_cards g') = Suc (length (trick_cards g))"

subsection \<open>A table used as an example\<close>

text \<open>A human seat holding the given cards.\<close>

definition seat :: "string \<Rightarrow> card list \<Rightarrow> player" where
  "seat nm h = (new_player nm True)\<lparr>hand := h\<rparr>"

text \<open>
  Three seats in the middle of a game, after the first seat has led the King of Hearts and
  the card has landed; the second seat is to move.
\<close>

definition hearts_table :: game where
  "hearts_table =
     new_game\<lparr>state := Play, player_count := 3,
       players := [seat ''P1'' [Card R4 Spades],
                   seat ''P2'' [Card R3 Hearts, Card R9 Diamonds],
                   seat ''P3'' [Card R5 Clubs, Card R7 Clubs]],
       trick_cards := [(0, Card King Hearts)],
       leader_index := 0, active_index := Some 1, required_suit := Some Hearts\<rparr>"

subsection \<open>The main loop\<close>

text \<open>
  What reaches the rule engine from \<^verbatim>\<open>run\<close>: a click on the card at some index of the hand
  shown, the frame in which a card's flight ends, the frame in which a trick has been shown
  for three seconds, and the pause key. \<^verbatim>\<open>handle_play_click\<close> is modelled from the point
  where the click has been found to lie on a card; the index comes from
  \<^verbatim>\<open>get_card_index_at_pos\<close> and is within the hand.
\<close>

datatype event = Click int | Landing | Timeout | PauseKey

definition handle_play_click :: "game \<Rightarrow> int \<Rightarrow> error + game" where
  "handle_play_click g card_index =
     (if animating g then Inr g
      else
        (case active_index g of
           None \<Rightarrow> Inr g
         | Some active_idx \<Rightarrow>
             if length (players g) \<le> active_idx then Inl IndexError
             else
               let player = players g ! active_idx in
               if \<not> is_active player then Inr g
               else if is_human player \<and> hand player \<noteq> []
                       \<and> 0 \<le> card_index \<and> card_index < int (length (hand player)) then
                 (case is_card_playable g active_idx card_index of
                    Inl e \<Rightarrow> Inl e
                  | Inr ok \<Rightarrow>
                      if \<not> ok then
                        Inr (g\<lparr>warning_text :=
                               (if first_move g \<and> required_suit g = None
                                then ''Game must start with Ace of Spades!''
                                else ''You must follow suit!'')\<rparr>)
                      else attempt_play_card g active_idx card_index)
               else Inr g))"

text \<open>
  The events are taken in turn, each under the test that \<^verbatim>\<open>run\<close> makes on the state. The
  shuffle of a pickup is taken to leave the cards in the order played.
\<close>

fun run :: "game \<Rightarrow> event list \<Rightarrow> error + game" where
  "run g [] = Inr g"
| "run g (Click ci # es) =
     (if state g = Play \<and> \<not> paused g then
        (case handle_play_click g ci of Inl e \<Rightarrow> Inl e | Inr g' \<Rightarrow> run g' es)
      else run g es)"
| "run g (Landing # es) =
     (if state g = Play \<or> state g = Paused \<or> state g = ShowingTrick
      then run (animation_finished g) es else run g es)"
| "run g (Timeout # es) =
     (if state g = ShowingTrick \<and> \<not> paused g then
        (case actually_resolve_trick (\<lambda>cs. cs) g (Some (pending_tochoo g)) of
           Inl e \<Rightarrow> Inl e | Inr g' \<Rightarrow> run g' es)
      else run g es)"
| "run g (PauseKey # es) = run (toggle_pause g) es"

subsection \<open>Two games played from the deal\<close>

text \<open>The setup screen with three human seats, before \<^verbatim>\<open>start_game\<close>.\<close>

definition three_humans :: game where
  "three_humans =
     new_game\<lparr>player_count := 3,
       players := [new_player ''P1'' True, new_player ''P2'' True, new_player ''P3'' True]\<rparr>"

text \<open>
  A first order of the shuffled deck, and a game on it played to the end. The first seat
  wins fifteen clean tricks, takes two tochoo tricks from the second seat, which goes out;
  the third seat then wins a trick and leads its last card.
\<close>

definition ending_deck :: "card list" where
  "ending_deck = [
      Card R10 Spades, Card Jack Spades, Card Queen Spades, Card King Spades,
      Card Ace Spades, Card R10 Hearts, Card Jack Hearts, Card Queen Hearts,
      Card King Hearts, Card Ace Hearts, Card Jack Diamonds, Card Queen Diamonds,
      Card King Diamonds, Card Ace Diamonds, Card Queen Clubs, Card King Clubs,
      Card Ace Clubs, Card R8 Clubs, Card R2 Spades, Card R3 Spades,
      Card R4 Spades, Card R5 Spades, Card R2 Hearts, Card R3 Hearts,
      Card R4 Hearts, Card R5 Hearts, Card R2 Diamonds, Card R3 Diamonds,
      Card R4 Diamonds, Card R5 Diamonds, Card R10 Diamonds, Card R2 Clubs,
      Card R3 Clubs, Card R4 Clubs, Card R9 Clubs, Card R6 Spades,
      Card R7 Spades, Card R8 Spades, Card R9 Spades, Card R6 Hearts,
      Card R7 Hearts, Card R8 Hearts, Card R9 Hearts, Card R6 Diamonds,
      Card R7 Diamonds, Card R8 Diamonds, Card R9 Diamonds, Card R5 Clubs,
      Card R6 Clubs, Card R7 Clubs, Card R10 Clubs, Card Jack Clubs]"

definition ending_game :: "event list" where
  "ending_game = [
      Click 4, Landing, Click 0, Landing, Click 0, Landing, Timeout, Click 3,
      Landing, Click 0, Landing, Click 0, Landing, Timeout, Click 2, Landing,
      Click 0, Landing, Click 0, Landing, Timeout, Click 1, Landing, Click 0,
      Landing, Click 0, Landing, Timeout, Click 5, Landing, Click 0, Landing,
      Click 0, Landing, Timeout, Click 4, Landing, Click 0, Landing, Click 0,
      Landing, Timeout, Click 3, Landing, Click 0, Landing, Click 0, Landing,
      Timeout, Click 2, Landing, Click 0, Landing, Click 0, Landing, Timeout,
      Click 5, Landing, Click 0, Landing, Click 0, Landing, Timeout, Click 4,
      Landing, Click 0, Landing, Click 0, Landing, Timeout, Click 3, Landing,
      Click 0, Landing, Click 0, Landing, Timeout, Click 2, Landing, Click 0,
      Landing, Click 0, Landing, Timeout, Click 5, Landing, Click 1, Landing,
      Click 0, Landing, Timeout, Click 4, Landing, Click 1, Landing, Click 0,
      Landing, Timeout, Click 3, Landing, Click 1, Landing, Click 0, Landing,
      Timeout, Click 0, Landing, Click 0, Landing, Timeout, Click 0, Landing,
      Click 0, Landing, Timeout, Click 3, Landing, Click 0, Landing, Timeout,
      Click 0]"

definition ending_deal :: game where
  "ending_deal = projr (start_game ending_deck 0 three_humans)"

definition ending_table :: game where
  "ending_table = projr (run ending_deal ending_game)"

text \<open>The same game before its last event, the lead of the third seat's last card.\<close>

definition last_lead_table :: game where
  "last_lead_table = projr (run ending_deal (take 120 ending_game))"

text \<open>
  The same game up to the moment after the second seat has gone out and the first seat has
  picked up its second tochoo trick, and from there a different continuation: the first
  seat leads the Ten of Spades and takes it back with the Ten of Clubs of the third seat,
  then leads the Eight of Clubs, on which the third seat holds only the Jack of Clubs.
\<close>

definition picked_up_table :: game where
  "picked_up_table = projr (run ending_deal (take 115 ending_game))"

definition last_follow_table :: game where
  "last_follow_table =
     projr (run picked_up_table
              [Click 0, Landing, Click 0, Landing, Timeout, Click 3, Landing])"

text \<open>
  Another game on the same deal, up to the moment the second seat has played on a trick of
  clubs without holding one: the third seat has led the Six of Clubs, the first seat has
  followed with the Queen of Clubs, and the second seat has played the Three of Hearts.
\<close>

definition high_follow_game :: "event list" where
  "high_follow_game = [
      Click 4, Landing, Click 3, Landing, Click 0, Landing, Timeout, Click 3,
      Landing, Click 1, Landing, Click 1, Landing, Timeout, Click 14, Landing,
      Click 14, Landing, Click 10, Landing, Timeout, Click 0, Landing, Click 0,
      Landing, Click 1, Landing, Timeout, Click 13, Landing, Click 12, Landing,
      Click 10, Landing, Timeout, Click 1, Landing, Click 0, Landing, Click 0,
      Landing, Timeout, Click 0, Landing, Click 10, Landing, Timeout, Click 10,
      Landing, Click 9, Landing, Click 9, Landing, Timeout, Click 8, Landing,
      Click 11, Landing, Click 1]"

definition high_follow_table :: game where
  "high_follow_table = projr (run ending_deal high_follow_game)"

text \<open>
  A second order of the deck and a game on it, up to the moment after the second seat has
  led its last card, the Jack of Clubs, and the other two seats have followed with clubs.
\<close>

definition stuck_deck :: "card list" where
  "stuck_deck = [
      Card R10 Spades, Card Jack Spades, Card Queen Spades, Card King Spades,
      Card Ace Spades, Card R3 Hearts, Card R4 Hearts, Card R5 Hearts,
      Card R6 Hearts, Card R2 Diamonds, Card R3 Diamonds, Card R4 Diamonds,
      Card R5 Diamonds, Card R2 Clubs, Card R3 Clubs, Card R4 Clubs,
      Card R5 Clubs, Card R6 Clubs, Card R2 Spades, Card R3 Spades,
      Card R4 Spades, Card R5 Spades, Card R2 Hearts, Card Jack Hearts,
      Card Queen Hearts, Card King Hearts, Card Ace Hearts, Card Jack Diamonds,
      Card Queen Diamonds, Card King Diamonds, Card Ace Diamonds, Card Jack Clubs,
      Card Queen Clubs, Card King Clubs, Card Ace Clubs, Card R6 Spades,
      Card R7 Spades, Card R8 Spades, Card R9 Spades, Card R7 Hearts,
      Card R8 Hearts, Card R9 Hearts, Card R10 Hearts, Card R6 Diamonds,
      Card R7 Diamonds, Card R8 Diamonds, Card R9 Diamonds, Card R10 Diamonds,
      Card R7 Clubs, Card R8 Clubs, Card R9 Clubs, Card R10 Clubs]"

definition stuck_game :: "event list" where
  "stuck_game = [
      Click 4, Landing, Click 0, Landing, Click 0, Landing, Timeout, Click 3,
      Landing, Click 0, Landing, Click 0, Landing, Timeout, Click 2, Landing,
      Click 0, Landing, Click 0, Landing, Timeout, Click 1, Landing, Click 0,
      Landing, Click 0, Landing, Timeout, Click 0, Landing, Click 0, Landing,
      Timeout, Click 2, Landing, Click 0, Landing, Click 0, Landing, Timeout,
      Click 2, Landing, Click 0, Landing, Click 1, Landing, Timeout, Click 1,
      Landing, Click 0, Landing, Click 1, Landing, Timeout, Click 0, Landing,
      Click 0, Landing, Click 1, Landing, Timeout, Click 3, Landing, Click 0,
      Landing, Click 2, Landing, Timeout, Click 2, Landing, Click 0, Landing,
      Click 2, Landing, Timeout, Click 1, Landing, Click 0, Landing, Click 2,
      Landing, Timeout, Click 0, Landing, Click 0, Landing, Click 2, Landing,
      Timeout, Click 3, Landing, Click 1, Landing, Click 2, Landing, Timeout,
      Click 2, Landing, Click 1, Landing, Click 2, Landing, Timeout, Click 1,
      Landing, Click 1, Landing, Click 2, Landing, Timeout, Click 0, Landing,
      Click 1, Landing, Click 2, Landing]"

definition stuck_deal :: game where
  "stuck_deal = projr (start_game stuck_deck 0 three_humans)"

definition stuck_table :: game where
  "stuck_table = projr (run stuck_deal stuck_game)"

text \<open>
  The second game continued: the third seat, holding no club, plays its last card, and the
  trick is shown and committed.
\<close>

definition slip_table :: game where
  "slip_table = projr (run stuck_table [Click 0, Landing, Timeout])"

subsection \<open>Marks left by a pickup\<close>


section \<open>Properties\<close>

subsection \<open>Indexing\<close>

lemma py_get_in_range: "0 \<le> i \<Longrightarrow> i < int (length xs) \<Longrightarrow> py_get xs i = Inr (xs ! nat i)"
  by (simp add: py_get_def py_index_def)


lemma py_index_bound: "py_index xs i = Some k \<Longrightarrow> k < length xs"
  by (auto simp: py_index_def Let_def split: if_splits)


subsection \<open>Facts about the example tables\<close>

lemma hearts_table_facts:
  "\<not> animating hearts_table"
  "Suc 0 < length (players hearts_table)"
  "length (players hearts_table) = 3"
  "active_index hearts_table = Some (Suc 0)"
  "required_suit hearts_table = Some Hearts"
  "is_active (players hearts_table ! Suc 0)"
  "has_suit (players hearts_table ! Suc 0) Hearts"
  "hand (players hearts_table ! Suc 0) = [Card R3 Hearts, Card R9 Diamonds]"
  by (simp_all add: hearts_table_def new_game_def seat_def new_player_def has_suit_def Card_def)

lemma hearts_table_off_suit: "is_card_playable hearts_table (Suc 0) 1 = Inr False"
  by (simp add: is_card_playable_def hearts_table_facts py_get_def py_index_def Card_def)

subsection \<open>Rejected plays\<close>

text \<open>
  Claim C6. When \<^verbatim>\<open>attempt_play_card\<close> is called during the animation hold, or for a seat
  of the table that is not the seat to move, or is inactive, or with a card index that the
  legality check answers with false, the call returns, and the hands and every other field
  of the seats, the trick, the required suit, the first-move flag, the leader, the seat to
  move, the discard pile, the rank counter, the finish order and the state are as before.
  The only field that may differ is the warning text shown to the user.
\<close>

theorem rejected_play_changes_nothing:
  assumes "animating g
         \<or> (player_idx < length (players g)
             \<and> (active_index g \<noteq> Some player_idx
                \<or> \<not> is_active (players g ! player_idx)
                \<or> is_card_playable g player_idx card_index = Inr False))"
  shows "\<exists>g'. attempt_play_card g player_idx card_index = Inr g'
     \<and> players g' = players g \<and> trick_cards g' = trick_cards g
     \<and> required_suit g' = required_suit g \<and> first_move g' = first_move g
     \<and> leader_index g' = leader_index g \<and> active_index g' = active_index g
     \<and> discard_pile g' = discard_pile g \<and> ranks_assigned g' = ranks_assigned g
     \<and> finish_order g' = finish_order g \<and> state g' = state g
     \<and> g' = g\<lparr>warning_text := warning_text g'\<rparr>"
  using assms
  by (auto simp: attempt_play_card_def is_card_playable_def py_get_def Let_def
           split: option.splits if_splits sum.splits)

theorem rejected_play_changes_nothing_witness:
  "\<exists>g'. attempt_play_card hearts_table 1 1 = Inr g'
     \<and> players g' = players hearts_table \<and> trick_cards g' = trick_cards hearts_table
     \<and> active_index g' = active_index hearts_table"
  using rejected_play_changes_nothing [of hearts_table "Suc 0" 1]
    hearts_table_off_suit hearts_table_facts(2)
  by auto

subsection \<open>Ranking loops\<close>

lemma assign_ranks_length:
  "assign_ranks t ps r fo = (ps', r', fo') \<Longrightarrow> length ps' = length ps"
  by (induction ps arbitrary: r fo ps' r' fo') (auto split: prod.splits if_splits)

lemma assign_ranks_nth:
  "assign_ranks t ps r fo = (ps', r', fo') \<Longrightarrow> i < length ps \<Longrightarrow>
     \<exists>k. ps' ! i
        = (if t (ps ! i) then (ps ! i)\<lparr>finished_rank := Some k, is_active := False\<rparr> else ps ! i)"
proof (induction ps arbitrary: r fo i ps' r' fo')
  case Nil
  then show ?case by simp
next
  case (Cons p ps)
  show ?case
  proof (cases i)
    case 0
    with Cons.prems show ?thesis by (auto split: prod.splits if_splits)
  next
    case (Suc j)
    with Cons.prems have j: "j < length ps" by simp
    show ?thesis
    proof (cases "t p")
      case True
      with Cons.prems obtain qs where
        eq: "assign_ranks t ps (r + 1) (fo @ [(name p, r + 1)]) = (qs, r', fo')"
        and ps': "ps' = p\<lparr>finished_rank := Some (r + 1), is_active := False\<rparr> # qs"
        by (auto split: prod.splits)
      from Cons.IH [OF eq j] ps' Suc show ?thesis by (auto split: if_splits)
    next
      case False
      with Cons.prems obtain qs where
        eq: "assign_ranks t ps r fo = (qs, r', fo')" and ps': "ps' = p # qs"
        by (auto split: prod.splits)
      from Cons.IH [OF eq j] ps' Suc show ?thesis by (auto split: if_splits)
    qed
  qed
qed

lemma assign_ranks_hand:
  assumes "assign_ranks t ps r fo = (ps', r', fo')" and "i < length ps"
  shows "hand (ps' ! i) = hand (ps ! i)"
proof -
  from assign_ranks_nth [OF assms] obtain k where
    "ps' ! i = (if t (ps ! i) then (ps ! i)\<lparr>finished_rank := Some k, is_active := False\<rparr> else ps ! i)" ..
  then show ?thesis by (cases "t (ps ! i)") simp_all
qed

lemma assign_ranks_flags:
  assumes "assign_ranks t ps r fo = (ps', r', fo')" and "i < length ps"
  shows "just_picked_up (ps' ! i) = just_picked_up (ps ! i) \<and> avoid_suit (ps' ! i) = avoid_suit (ps ! i)"
proof -
  from assign_ranks_nth [OF assms] obtain k where
    "ps' ! i = (if t (ps ! i) then (ps ! i)\<lparr>finished_rank := Some k, is_active := False\<rparr> else ps ! i)" ..
  then show ?thesis by (cases "t (ps ! i)") simp_all
qed

lemma assign_ranks_active:
  assumes "assign_ranks t ps r fo = (ps', r', fo')" and "i < length ps"
  shows "is_active (ps' ! i) \<longleftrightarrow> is_active (ps ! i) \<and> \<not> t (ps ! i)"
proof -
  from assign_ranks_nth [OF assms] obtain k where
    "ps' ! i = (if t (ps ! i) then (ps ! i)\<lparr>finished_rank := Some k, is_active := False\<rparr> else ps ! i)" ..
  then show ?thesis by (cases "t (ps ! i)") simp_all
qed


lemma check_game_end_same [simp]:
  "leader_index (check_game_end g) = leader_index g"
  "active_index (check_game_end g) = active_index g"
  "trick_cards (check_game_end g) = trick_cards g"
  "required_suit (check_game_end g) = required_suit g"
  "discard_pile (check_game_end g) = discard_pile g"
  "first_move (check_game_end g) = first_move g"
  "animating (check_game_end g) = animating g"
  "resolve_after_animation (check_game_end g) = resolve_after_animation g"
  "last_trick_suit (check_game_end g) = last_trick_suit g"
  by (auto simp: check_game_end_def split: prod.splits)

lemma check_game_end_length [simp]:
  "length (players (check_game_end g)) = length (players g)"
  by (auto simp: check_game_end_def assign_ranks_length split: prod.splits)

lemma check_game_end_hand:
  "i < length (players g) \<Longrightarrow> hand (players (check_game_end g) ! i) = hand (players g ! i)"
  by (auto simp: check_game_end_def assign_ranks_hand split: prod.splits)

lemma check_game_end_flags:
  "i < length (players g) \<Longrightarrow>
     just_picked_up (players (check_game_end g) ! i) = just_picked_up (players g ! i)
   \<and> avoid_suit (players (check_game_end g) ! i) = avoid_suit (players g ! i)"
  by (auto simp: check_game_end_def assign_ranks_flags split: prod.splits)

subsection \<open>The seat that takes a trick\<close>

lemma py_max_key_mem: "py_max_key f x xs \<in> set (x # xs)"
  unfolding py_max_key_def by (induction xs arbitrary: x) auto

lemma py_max_key_mono: "f x \<le> f (py_max_key f x xs)"
  unfolding py_max_key_def
proof (induction xs arbitrary: x)
  case Nil
  then show ?case by simp
next
  case (Cons a xs)
  have "f x \<le> f (if f x < f a then a else x)" by simp
  also have "\<dots> \<le> f (foldl (\<lambda>m y. if f m < f y then y else m) (if f x < f a then a else x) xs)"
    by (rule Cons.IH)
  finally show ?case by simp
qed

lemma py_max_key_ge: "y \<in> set (x # xs) \<Longrightarrow> f y \<le> f (py_max_key f x xs)"
proof (induction xs arbitrary: x)
  case Nil
  then show ?case by (simp add: py_max_key_def)
next
  case (Cons a xs)
  have step: "py_max_key f x (a # xs) = py_max_key f (if f x < f a then a else x) xs"
    by (simp add: py_max_key_def)
  show ?case
  proof (cases "y \<in> set xs")
    case True
    then show ?thesis unfolding step by (intro Cons.IH) simp
  next
    case False
    with Cons.prems have "y = x \<or> y = a" by auto
    then have "f y \<le> f (if f x < f a then a else x)" by auto
    also have "\<dots> \<le> f (py_max_key f (if f x < f a then a else x) xs)"
      by (rule py_max_key_mono)
    finally show ?thesis unfolding step .
  qed
qed

lemma trick_taker_cases:
  "(suited_cards g = [] \<longrightarrow> trick_taker g = leader_index g)
   \<and> (suited_cards g \<noteq> [] \<longrightarrow>
        (\<exists>c. (trick_taker g, c) \<in> set (trick_cards g) \<and> Some (suit c) = required_suit g
           \<and> (\<forall>t \<in> set (trick_cards g). Some (suit (snd t)) = required_suit g
                 \<longrightarrow> card_value (snd t) \<le> card_value c)))"
proof (cases "suited_cards g")
  case Nil
  then show ?thesis by (simp add: trick_taker_def)
next
  case (Cons t ts)
  let ?m = "py_max_key (\<lambda>t. card_value (snd t)) t ts"
  have mem: "?m \<in> set (suited_cards g)" using py_max_key_mem [of _ t ts] Cons by simp
  then have 1: "?m \<in> set (trick_cards g)" and 2: "Some (suit (snd ?m)) = required_suit g"
    by (auto simp: suited_cards_def)
  have 3: "card_value (snd u) \<le> card_value (snd ?m)"
    if "u \<in> set (trick_cards g)" "Some (suit (snd u)) = required_suit g" for u
  proof -
    from that have "u \<in> set (suited_cards g)" by (simp add: suited_cards_def)
    then have "u \<in> set (t # ts)" using Cons by simp
    from py_max_key_ge [OF this, of "\<lambda>t. card_value (snd t)"] show ?thesis .
  qed
  have tk: "trick_taker g = fst ?m" using Cons by (simp add: trick_taker_def)
  have "(fst ?m, snd ?m) \<in> set (trick_cards g)" using 1 by simp
  with 2 3 tk Cons show ?thesis by (intro conjI impI) (auto intro!: exI [of _ "snd ?m"])
qed

lemma trick_taker_bound:
  "\<forall>t \<in> set (trick_cards g). fst t < n \<Longrightarrow> leader_index g < n \<Longrightarrow> trick_taker g < n"
  using trick_taker_cases [of g] by (cases "suited_cards g = []") auto

subsection \<open>The phases of a resolution\<close>

lemma mset_sort_hand [simp]: "mset (sort_hand cs) = mset cs"
  by (simp add: sort_hand_def)

lemma length_sort_hand [simp]: "length (sort_hand cs) = length cs"
  by (simp add: sort_hand_def)

lemma rank_empty_hands_same [simp]:
  "leader_index (rank_empty_hands g) = leader_index g"
  "active_index (rank_empty_hands g) = active_index g"
  "trick_cards (rank_empty_hands g) = trick_cards g"
  "required_suit (rank_empty_hands g) = required_suit g"
  "discard_pile (rank_empty_hands g) = discard_pile g"
  "first_move (rank_empty_hands g) = first_move g"
  "animating (rank_empty_hands g) = animating g"
  "resolve_after_animation (rank_empty_hands g) = resolve_after_animation g"
  "last_trick_suit (rank_empty_hands g) = last_trick_suit g"
  "state (rank_empty_hands g) = state g"
  by (simp_all add: rank_empty_hands_def split: prod.splits)

lemma rank_empty_hands_length [simp]:
  "length (players (rank_empty_hands g)) = length (players g)"
  by (auto simp: rank_empty_hands_def assign_ranks_length split: prod.splits)

lemma rank_empty_hands_hand:
  "i < length (players g) \<Longrightarrow> hand (players (rank_empty_hands g) ! i) = hand (players g ! i)"
  by (auto simp: rank_empty_hands_def assign_ranks_hand split: prod.splits)

lemma rank_empty_hands_flags:
  "i < length (players g) \<Longrightarrow>
     just_picked_up (players (rank_empty_hands g) ! i) = just_picked_up (players g ! i)
   \<and> avoid_suit (players (rank_empty_hands g) ! i) = avoid_suit (players g ! i)"
  by (auto simp: rank_empty_hands_def assign_ranks_flags split: prod.splits)

lemma close_trick_same [simp]:
  "players (close_trick g) = players g"
  "leader_index (close_trick g) = leader_index g"
  "active_index (close_trick g) = active_index g"
  "trick_cards (close_trick g) = trick_cards g"
  "required_suit (close_trick g) = required_suit g"
  "discard_pile (close_trick g) = discard_pile g"
  "first_move (close_trick g) = first_move g"
  "animating (close_trick g) = animating g"
  "resolve_after_animation (close_trick g) = resolve_after_animation g"
  "ranks_assigned (close_trick g) = ranks_assigned g"
  "finish_order (close_trick g) = finish_order g"
  by (simp_all add: close_trick_def Let_def)

lemma award_trick_same [simp]:
  "leader_index (award_trick sh g b r) = r"
  "active_index (award_trick sh g b r) = Some r"
  "length (players (award_trick sh g b r)) = length (players g)"
  "first_move (award_trick sh g b r) = first_move g"
  "animating (award_trick sh g b r) = animating g"
  "ranks_assigned (award_trick sh g b r) = ranks_assigned g"
  by (simp_all add: award_trick_def Let_def)

lemma award_trick_tochoo:
  "r < length (players g) \<Longrightarrow>
     players (award_trick sh g True r) ! r
       = (players g ! r)\<lparr>hand := sort_hand (hand (players g ! r) @ sh (map snd (trick_cards g))),
            just_picked_up := True, avoid_suit := last_trick_suit g\<rparr>"
  by (simp add: award_trick_def Let_def pick_up_def)

lemma resolve_tochoo:
  assumes t: "t = Some True \<or> (t = None \<and> pending_tochoo g)"
    and r: "trick_taker g < length (players g)"
  shows "\<exists>g'. actually_resolve_trick sh g t = Inr g'
      \<and> length (players g') = length (players g)
      \<and> leader_index g' = trick_taker g \<and> active_index g' = Some (trick_taker g)
      \<and> hand (players g' ! trick_taker g)
           = sort_hand (hand (players g ! trick_taker g) @ sh (map snd (trick_cards g)))
      \<and> just_picked_up (players g' ! trick_taker g)
      \<and> avoid_suit (players g' ! trick_taker g) = last_trick_suit g
      \<and> trick_cards g' = [] \<and> required_suit g' = None"
proof -
  let ?r = "trick_taker g"
  let ?g2 = "(award_trick sh g True ?r)\<lparr>trick_cards := [], required_suit := None\<rparr>"
  let ?g' = "close_trick (check_game_end (rank_empty_hands ?g2))"
  have tt: "(case t of None \<Rightarrow> pending_tochoo g | Some b \<Rightarrow> b) = True" using t by auto
  have res: "actually_resolve_trick sh g t = Inr ?g'"
    unfolding actually_resolve_trick_def Let_def tt using r by simp
  have r2: "?r < length (players ?g2)" using r by simp
  have r3: "?r < length (players (rank_empty_hands ?g2))" using r by simp
  have p2: "players ?g2 ! ?r
       = (players g ! ?r)\<lparr>hand := sort_hand (hand (players g ! ?r) @ sh (map snd (trick_cards g))),
            just_picked_up := True, avoid_suit := last_trick_suit g\<rparr>"
    using award_trick_tochoo [OF r] by simp
  have h: "hand (players ?g' ! ?r)
           = sort_hand (hand (players g ! ?r) @ sh (map snd (trick_cards g)))"
    using check_game_end_hand [OF r3] rank_empty_hands_hand [OF r2] p2 by simp
  have f: "just_picked_up (players ?g' ! ?r) \<and> avoid_suit (players ?g' ! ?r) = last_trick_suit g"
    using check_game_end_flags [OF r3] rank_empty_hands_flags [OF r2] p2 by simp
  have rest: "length (players ?g') = length (players g)" "leader_index ?g' = ?r"
    "active_index ?g' = Some ?r" "trick_cards ?g' = []" "required_suit ?g' = None"
    by simp_all
  from res h f rest show ?thesis by simp
qed

lemma resolve_trick_fields [simp]:
  "players (resolve_trick g b) = players g"
  "trick_cards (resolve_trick g b) = trick_cards g"
  "required_suit (resolve_trick g b) = required_suit g"
  "leader_index (resolve_trick g b) = leader_index g"
  "active_index (resolve_trick g b) = active_index g"
  by (simp_all add: resolve_trick_def)

lemma trick_taker_resolve_trick [simp]: "trick_taker (resolve_trick g b) = trick_taker g"
  by (simp add: trick_taker_def suited_cards_def split: list.splits)

subsection \<open>Committing a tochoo\<close>

lemma suited_cards_Nil_iff:
  "suited_cards g = [] \<longleftrightarrow> (\<forall>t \<in> set (trick_cards g). Some (suit (snd t)) \<noteq> required_suit g)"
  by (auto simp: suited_cards_def filter_empty_conv)

lemma high_follow_table_facts:
  "trick_cards high_follow_table
     = [(2, Card R6 Clubs), (0, Card Queen Clubs), (Suc 0, Card R3 Hearts)]"
  "length (players high_follow_table) = 3"
  "leader_index high_follow_table = 2"
  "required_suit high_follow_table = Some Clubs"
  "hand (players high_follow_table ! 0)
     = [Card Jack Spades, Card R10 Hearts, Card Jack Hearts, Card Queen Hearts,
        Card King Hearts, Card Ace Hearts, Card Jack Diamonds, Card Queen Diamonds,
        Card King Diamonds, Card Ace Diamonds, Card R8 Clubs]"
  by code_simp+

text \<open>
  Claim C2. Let a non-empty trick be handed to \<^verbatim>\<open>resolve_trick\<close> as a tochoo and then
  committed by \<^verbatim>\<open>actually_resolve_trick\<close>, all seats named in the trick and the leader
  being seats of the table. The commit returns, and there is one seat, the recipient, of
  which all of the following holds. When no played card is of the required suit the
  recipient is the leader; otherwise the recipient played a card of the required suit, and
  no played card of the required suit has a higher value than that card. The recipient's
  new hand holds its old cards and every card of the trick, so it has grown by the number
  of cards in the trick; the recipient is the new leader and the seat to move; its
  \<^verbatim>\<open>just_picked_up\<close> flag is set and its \<^verbatim>\<open>avoid_suit\<close> is the suit of the trick.
\<close>

theorem tochoo_commit_outcome:
  assumes trick: "trick_cards g \<noteq> []"
    and seats: "\<forall>t \<in> set (trick_cards g). fst t < length (players g)"
    and leader: "leader_index g < length (players g)"
    and perm: "\<And>xs. mset (shuffle xs) = mset xs"
  shows "\<exists>g' r. actually_resolve_trick shuffle (resolve_trick g True) None = Inr g'
      \<and> (if \<forall>t \<in> set (trick_cards g). Some (suit (snd t)) \<noteq> required_suit g
          then r = leader_index g
          else \<exists>c. (r, c) \<in> set (trick_cards g) \<and> Some (suit c) = required_suit g
                 \<and> (\<forall>t \<in> set (trick_cards g). Some (suit (snd t)) = required_suit g
                       \<longrightarrow> RANK_VALUE (rank (snd t)) \<le> RANK_VALUE (rank c)))
      \<and> mset (hand (players g' ! r))
           = mset (hand (players g ! r)) + mset (map snd (trick_cards g))
      \<and> length (hand (players g' ! r))
           = length (hand (players g ! r)) + length (trick_cards g)
      \<and> leader_index g' = r \<and> active_index g' = Some r
      \<and> just_picked_up (players g' ! r)
      \<and> avoid_suit (players g' ! r) = required_suit g"
proof -
  let ?g1 = "resolve_trick g True"
  let ?r = "trick_taker g"
  have pend: "pending_tochoo ?g1" and lts: "last_trick_suit ?g1 = required_suit g"
    using trick by (simp_all add: resolve_trick_def)
  have bound: "trick_taker ?g1 < length (players ?g1)"
    using trick_taker_bound [OF seats leader] by simp
  have "None = Some True \<or> (None = None \<and> pending_tochoo ?g1)" using pend by simp
  from resolve_tochoo [OF this bound, of shuffle]
  obtain g' where res: "actually_resolve_trick shuffle ?g1 None = Inr g'"
    and li: "leader_index g' = ?r" and ai: "active_index g' = Some ?r"
    and h: "hand (players g' ! ?r)
           = sort_hand (hand (players g ! ?r) @ shuffle (map snd (trick_cards g)))"
    and jp: "just_picked_up (players g' ! ?r)"
    and av: "avoid_suit (players g' ! ?r) = last_trick_suit ?g1"
    by auto
  have m: "mset (hand (players g' ! ?r))
           = mset (hand (players g ! ?r)) + mset (map snd (trick_cards g))"
    by (simp add: h perm)
  have l: "length (hand (players g' ! ?r))
           = length (hand (players g ! ?r)) + length (trick_cards g)"
    by (simp add: h) (metis length_map perm size_mset)
  have tk: "if \<forall>t \<in> set (trick_cards g). Some (suit (snd t)) \<noteq> required_suit g
          then ?r = leader_index g
          else \<exists>c. (?r, c) \<in> set (trick_cards g) \<and> Some (suit c) = required_suit g
                 \<and> (\<forall>t \<in> set (trick_cards g). Some (suit (snd t)) = required_suit g
                       \<longrightarrow> RANK_VALUE (rank (snd t)) \<le> RANK_VALUE (rank c))"
    using trick_taker_cases [of g] unfolding suited_cards_Nil_iff card_value_def
    by (cases "\<forall>t \<in> set (trick_cards g). Some (suit (snd t)) \<noteq> required_suit g") auto
  from res tk m l li ai jp av lts show ?thesis by (intro exI [of _ g'] exI [of _ ?r]) simp
qed

theorem tochoo_commit_outcome_witness:
  "\<exists>g'. actually_resolve_trick (\<lambda>xs. xs) (resolve_trick high_follow_table True) None = Inr g'
      \<and> leader_index g' = 0 \<and> active_index g' = Some 0
      \<and> mset (hand (players g' ! 0))
           = mset ([Card Jack Spades, Card R10 Hearts, Card Jack Hearts, Card Queen Hearts,
                    Card King Hearts, Card Ace Hearts, Card Jack Diamonds, Card Queen Diamonds,
                    Card King Diamonds, Card Ace Diamonds, Card R8 Clubs]
                   @ [Card R6 Clubs, Card Queen Clubs, Card R3 Hearts])
      \<and> length (hand (players g' ! 0)) = 14
      \<and> just_picked_up (players g' ! 0) \<and> avoid_suit (players g' ! 0) = Some Clubs"
proof -
  note f = high_follow_table_facts
  from tochoo_commit_outcome [of high_follow_table "\<lambda>xs. xs"]
  obtain g' r
    where res: "actually_resolve_trick (\<lambda>xs. xs) (resolve_trick high_follow_table True) None
                  = Inr g'"
      and high: "\<exists>c. (r, c) \<in> set (trick_cards high_follow_table) \<and> suit c = Clubs
                   \<and> RANK_VALUE Queen \<le> RANK_VALUE (rank c)"
      and m: "mset (hand (players g' ! r))
                = mset (hand (players high_follow_table ! r))
                  + mset (map snd (trick_cards high_follow_table))"
      and l: "length (hand (players g' ! r))
                = length (hand (players high_follow_table ! r))
                  + length (trick_cards high_follow_table)"
      and rest: "leader_index g' = r" "active_index g' = Some r"
        "just_picked_up (players g' ! r)" "avoid_suit (players g' ! r) = Some Clubs"
    by (auto simp: f Card_def)
  from high have "r = 0" by (auto simp: f Card_def)
  with res m l rest show ?thesis by (auto simp: f)
qed

subsection \<open>Playing a card: what changes\<close>

lemma assign_ranks_keep:
  assumes "assign_ranks t ps r fo = (ps', r', fo')" and "i < length ps" and "\<not> t (ps ! i)"
  shows "ps' ! i = ps ! i"
  using assign_ranks_nth [OF assms(1,2)] assms(3) by simp

lemma assign_ranks_grow:
  "assign_ranks t ps r fo = (ps', r', fo') \<Longrightarrow> r \<le> r' \<and> (\<exists>xs. fo' = fo @ xs)"
proof (induction ps arbitrary: r fo ps' r' fo')
  case Nil
  then show ?case by simp
next
  case (Cons p ps)
  show ?case
  proof (cases "t p")
    case True
    with Cons.prems obtain qs where
      eq: "assign_ranks t ps (r + 1) (fo @ [(name p, r + 1)]) = (qs, r', fo')"
      by (auto split: prod.splits)
    from Cons.IH [OF eq] show ?thesis by auto
  next
    case False
    with Cons.prems obtain qs where eq: "assign_ranks t ps r fo = (qs, r', fo')"
      by (auto split: prod.splits)
    from Cons.IH [OF eq] show ?thesis by auto
  qed
qed

lemma check_game_end_keep:
  "i < length (players g) \<Longrightarrow> \<not> is_active (players g ! i)
     \<Longrightarrow> players (check_game_end g) ! i = players g ! i"
  by (auto simp: check_game_end_def assign_ranks_keep split: prod.splits)

lemma check_game_end_active:
  "i < length (players g) \<Longrightarrow> is_active (players (check_game_end g) ! i)
     \<Longrightarrow> is_active (players g ! i)"
  by (auto simp: check_game_end_def assign_ranks_active split: prod.splits if_splits)

lemma check_game_end_grow:
  "ranks_assigned g \<le> ranks_assigned (check_game_end g)
   \<and> (\<exists>xs. finish_order (check_game_end g) = finish_order g @ xs)"
  using assign_ranks_grow
  by (fastforce simp: check_game_end_def split: prod.splits)

lemma check_game_end_state:
  "state (check_game_end g) = (if length (filter is_active (players g)) \<le> 1 then Finished else state g)"
  by (auto simp: check_game_end_def split: prod.splits)

lemma attempt_play_card_cases:
  assumes "attempt_play_card g i ci = Inr g'"
  obtains (rejected) "g' = g\<lparr>warning_text := warning_text g'\<rparr>"
  | (lead) k where "\<not> animating g" "i < length (players g)" "active_index g = Some i"
      "is_active (players g ! i)" "py_index (hand (players g ! i)) ci = Some k"
      "required_suit g = None"
      "first_move g \<longrightarrow> is_ace_of_spades (hand (players g ! i) ! k)"
      "g' = play_as_leader g i k"
  | (follow) k s where "\<not> animating g" "i < length (players g)" "active_index g = Some i"
      "is_active (players g ! i)" "py_index (hand (players g ! i)) ci = Some k"
      "required_suit g = Some s"
      "has_suit (players g ! i) s \<longrightarrow> suit (hand (players g ! i) ! k) = s"
      "g' = play_as_follower g i k s (has_suit (players g ! i) s)"
  using assms
  by (auto simp: attempt_play_card_def Let_def split: if_splits option.splits)


lemma clear_pickup_fields [simp]:
  "hand (clear_pickup p) = hand p" "is_active (clear_pickup p) = is_active p"
  "finished_rank (clear_pickup p) = finished_rank p" "name (clear_pickup p) = name p"
  "just_picked_up (clear_pickup p) = False"
  "avoid_suit (clear_pickup p) = (if just_picked_up p then None else avoid_suit p)"
  by (simp_all add: clear_pickup_def)

lemma play_as_leader_same [simp]:
  "trick_cards (play_as_leader g i k) = trick_cards g @ [(i, hand (players g ! i) ! k)]"
  "leader_index (play_as_leader g i k) = leader_index g"
  "required_suit (play_as_leader g i k) = Some (suit (hand (players g ! i) ! k))"
  "first_move (play_as_leader g i k) = False"
  "animating (play_as_leader g i k) = True"
  "resolve_after_animation (play_as_leader g i k) = resolve_after_animation g"
  "discard_pile (play_as_leader g i k) = discard_pile g"
  "length (players (play_as_leader g i k)) = length (players g)"
  "active_index (play_as_leader g i k)
     = next_active_index ((players g)[i := (players g ! i)\<lparr>hand := take k (hand (players g ! i))
           @ drop (Suc k) (hand (players g ! i))\<rparr>]) i"
  by (simp_all add: play_as_leader_def Let_def)

lemma play_as_leader_hand:
  assumes "i < length (players g)"
  shows "hand (players (play_as_leader g i k) ! i)
           = take k (hand (players g ! i)) @ drop (Suc k) (hand (players g ! i))"
  using assms by (simp add: play_as_leader_def Let_def check_game_end_hand)





lemma play_as_follower_same [simp]:
  "trick_cards (play_as_follower g i k s b) = trick_cards g @ [(i, hand (players g ! i) ! k)]"
  "leader_index (play_as_follower g i k s b) = leader_index g"
  "required_suit (play_as_follower g i k s b) = required_suit g"
  "first_move (play_as_follower g i k s b) = first_move g"
  "animating (play_as_follower g i k s b) = True"
  "discard_pile (play_as_follower g i k s b) = discard_pile g"
  "ranks_assigned (play_as_follower g i k s b) = ranks_assigned g"
  "finish_order (play_as_follower g i k s b) = finish_order g"
  "state (play_as_follower g i k s b) = state g"
  "length (players (play_as_follower g i k s b)) = length (players g)"
  by (simp_all add: play_as_follower_def Let_def)

lemma play_as_follower_seat:
  assumes "i < length (players g)"
  shows "hand (players (play_as_follower g i k s b) ! i)
           = take k (hand (players g ! i)) @ drop (Suc k) (hand (players g ! i))"
    and "is_active (players (play_as_follower g i k s b) ! i) = is_active (players g ! i)"
    and "finished_rank (players (play_as_follower g i k s b) ! i) = finished_rank (players g ! i)"
    and "just_picked_up (players (play_as_follower g i k s b) ! i)
           \<longrightarrow> just_picked_up (players g ! i)"
    and "\<not> just_picked_up (players g ! i) \<longrightarrow>
           avoid_suit (players (play_as_follower g i k s b) ! i) = avoid_suit (players g ! i)"
  using assms by (simp_all add: play_as_follower_def Let_def)

lemma play_as_follower_other:
  assumes "j \<noteq> i"
  shows "players (play_as_follower g i k s b) ! j = players g ! j"
  using assms by (simp add: play_as_follower_def Let_def)











lemma award_trick_players:
  "j < length (players g) \<Longrightarrow> j \<noteq> r \<or> \<not> b \<Longrightarrow>
     players (award_trick sh g b r) ! j = players g ! j"
  by (auto simp: award_trick_def Let_def)

lemma resolved_form:
  assumes "actually_resolve_trick sh g t = Inr g'"
  obtains b where "b = (case t of None \<Rightarrow> pending_tochoo g | Some b \<Rightarrow> b)"
    "b \<longrightarrow> trick_taker g < length (players g)"
    "g' = close_trick (check_game_end (rank_empty_hands
            ((award_trick sh g b (trick_taker g))\<lparr>trick_cards := [], required_suit := None\<rparr>)))"
  using assms by (auto simp: actually_resolve_trick_def Let_def split: if_splits)




subsection \<open>Runs of the main loop\<close>

lemma attempt_rejects_unplayable:
  assumes "\<not> animating g" "a < length (players g)" "active_index g = Some a"
    "is_active (players g ! a)" "is_card_playable g a ci = Inr False"
  shows "attempt_play_card g a ci
           = Inr (g\<lparr>warning_text :=
                    (if first_move g \<and> required_suit g = None
                     then ''Game must start with Ace of Spades!''
                     else ''You must follow suit!'')\<rparr>)"
proof (cases "required_suit g")
  case None
  with assms show ?thesis
    by (cases "py_index (hand (players g ! a)) ci")
       (auto simp: attempt_play_card_def is_card_playable_def py_get_def Let_def
             split: if_splits)
next
  case (Some s)
  with assms show ?thesis
    by (cases "py_index (hand (players g ! a)) ci")
       (auto simp: attempt_play_card_def is_card_playable_def py_get_def Let_def
             split: if_splits)
qed

lemma handle_play_click_cases:
  assumes "handle_play_click g ci = Inr g'"
  shows "g' = g
       \<or> (\<exists>a. \<not> animating g \<and> a < length (players g) \<and> active_index g = Some a
              \<and> is_active (players g ! a)
              \<and> (attempt_play_card g a ci = Inr g'
                 \<or> (is_card_playable g a ci = Inr False
                    \<and> g' = g\<lparr>warning_text :=
                               (if first_move g \<and> required_suit g = None
                                then ''Game must start with Ace of Spades!''
                                else ''You must follow suit!'')\<rparr>)))"
proof (cases "animating g")
  case True
  with assms show ?thesis by (simp add: handle_play_click_def)
next
  case False
  show ?thesis
  proof (cases "active_index g")
    case None
    with assms False show ?thesis by (simp add: handle_play_click_def)
  next
    case (Some a)
    show ?thesis
    proof (cases "is_card_playable g a ci")
      case (Inl e)
      with assms False Some show ?thesis
        by (auto simp: handle_play_click_def Let_def split: if_splits)
    next
      case (Inr ok)
      with assms False Some show ?thesis
        by (cases ok) (auto simp: handle_play_click_def Let_def split: if_splits)
    qed
  qed
qed

lemma handle_play_click_step:
  assumes "handle_play_click g ci = Inr g'"
  shows "g' = g \<or> step g g'"
  using handle_play_click_cases [OF assms] attempt_rejects_unplayable [of g _ ci]
  by (auto intro: step.played)

lemma run_steps: "run g es = Inr g' \<Longrightarrow> step\<^sup>*\<^sup>* g g'"
proof (induction g es rule: run.induct)
  case (1 g)
  then show ?case by simp
next
  case (2 g ci es)
  show ?case
  proof (cases "state g = Play \<and> \<not> paused g")
    case True
    with "2.prems" obtain h where h: "handle_play_click g ci = Inr h" and r: "run h es = Inr g'"
      by (auto split: sum.splits)
    from handle_play_click_step [OF h] have "step\<^sup>*\<^sup>* g h" by auto
    with "2.IH"(1) [OF True h r] show ?thesis by simp
  next
    case False
    with "2.prems" "2.IH"(2) show ?thesis by simp
  qed
next
  case (3 g es)
  show ?case
  proof (cases "state g = Play \<or> state g = Paused \<or> state g = ShowingTrick")
    case True
    with "3.prems" have "run (animation_finished g) es = Inr g'" by simp
    from "3.IH"(1) [OF True this] step.landed [of g] show ?thesis
      by (meson converse_rtranclp_into_rtranclp)
  next
    case False
    with "3.prems" "3.IH"(2) show ?thesis by simp
  qed
next
  case (4 g es)
  show ?case
  proof (cases "state g = ShowingTrick \<and> \<not> paused g")
    case True
    with "4.prems" obtain h where
      h: "actually_resolve_trick (\<lambda>cs. cs) g (Some (pending_tochoo g)) = Inr h"
      and r: "run h es = Inr g'"
      by (auto split: sum.splits)
    have "step g h" by (rule step.resolved [OF _ h]) simp
    with "4.IH"(1) [OF True h r] show ?thesis
      by (meson converse_rtranclp_into_rtranclp)
  next
    case False
    with "4.prems" "4.IH"(2) show ?thesis by simp
  qed
next
  case (5 g es)
  from "5.prems" have "run (toggle_pause g) es = Inr g'" by simp
  from "5.IH" [OF this] step.toggled [of g] show ?case
    by (meson converse_rtranclp_into_rtranclp)
qed

lemma reachable_steps: "step\<^sup>*\<^sup>* g g' \<Longrightarrow> reachable g \<Longrightarrow> reachable g'"
  by (induction rule: rtranclp_induct) (auto intro: reachable.stepped)

lemma reachable_run: "reachable g \<Longrightarrow> run g es = Inr g' \<Longrightarrow> reachable g'"
  using run_steps reachable_steps by blast

subsection \<open>The two games\<close>

lemma three_humans_setup:
  "length (players three_humans) = player_count three_humans"
  "3 \<le> player_count three_humans" "player_count three_humans \<le> 6"
  by (simp_all add: three_humans_def new_game_def)

lemma ending_deck_full: "mset ending_deck = mset full_deck"
  by code_simp

lemma stuck_deck_full: "mset stuck_deck = mset full_deck"
  by code_simp

lemma ending_deal_dealt: "start_game ending_deck 0 three_humans = Inr ending_deal"
proof -
  have "\<not> isl (start_game ending_deck 0 three_humans)" by code_simp
  then show ?thesis by (simp add: ending_deal_def)
qed

lemma stuck_deal_dealt: "start_game stuck_deck 0 three_humans = Inr stuck_deal"
proof -
  have "\<not> isl (start_game stuck_deck 0 three_humans)" by code_simp
  then show ?thesis by (simp add: stuck_deal_def)
qed

lemma ending_deal_reachable: "reachable ending_deal"
  using reachable.dealt [OF ending_deck_full three_humans_setup ending_deal_dealt] .

lemma stuck_deal_reachable: "reachable stuck_deal"
  using reachable.dealt [OF stuck_deck_full three_humans_setup stuck_deal_dealt] .

lemma ending_table_run: "run ending_deal ending_game = Inr ending_table"
proof -
  have "\<not> isl (run ending_deal ending_game)" by code_simp
  then show ?thesis by (simp add: ending_table_def)
qed

lemma last_lead_table_run: "run ending_deal (take 120 ending_game) = Inr last_lead_table"
proof -
  have "\<not> isl (run ending_deal (take 120 ending_game))" by code_simp
  then show ?thesis by (simp add: last_lead_table_def)
qed

lemma picked_up_table_run: "run ending_deal (take 115 ending_game) = Inr picked_up_table"
proof -
  have "\<not> isl (run ending_deal (take 115 ending_game))" by code_simp
  then show ?thesis by (simp add: picked_up_table_def)
qed

lemma last_follow_table_run:
  "run picked_up_table [Click 0, Landing, Click 0, Landing, Timeout, Click 3, Landing]
     = Inr last_follow_table"
proof -
  have "\<not> isl (run picked_up_table
                  [Click 0, Landing, Click 0, Landing, Timeout, Click 3, Landing])"
    by code_simp
  then show ?thesis by (simp add: last_follow_table_def)
qed

lemma high_follow_table_run: "run ending_deal high_follow_game = Inr high_follow_table"
proof -
  have "\<not> isl (run ending_deal high_follow_game)" by code_simp
  then show ?thesis by (simp add: high_follow_table_def)
qed

lemma stuck_table_run: "run stuck_deal stuck_game = Inr stuck_table"
proof -
  have "\<not> isl (run stuck_deal stuck_game)" by code_simp
  then show ?thesis by (simp add: stuck_table_def)
qed

lemma slip_table_run: "run stuck_table [Click 0, Landing, Timeout] = Inr slip_table"
proof -
  have "\<not> isl (run stuck_table [Click 0, Landing, Timeout])" by code_simp
  then show ?thesis by (simp add: slip_table_def)
qed

lemma ending_table_reachable: "reachable ending_table"
  using reachable_run [OF ending_deal_reachable ending_table_run] .

lemma last_lead_table_reachable: "reachable last_lead_table"
  using reachable_run [OF ending_deal_reachable last_lead_table_run] .

lemma picked_up_table_reachable: "reachable picked_up_table"
  using reachable_run [OF ending_deal_reachable picked_up_table_run] .

lemma last_follow_table_reachable: "reachable last_follow_table"
  using reachable_run [OF picked_up_table_reachable last_follow_table_run] .

lemma high_follow_table_reachable: "reachable high_follow_table"
  using reachable_run [OF ending_deal_reachable high_follow_table_run] .

lemma stuck_table_reachable: "reachable stuck_table"
  using reachable_run [OF stuck_deal_reachable stuck_table_run] .

lemma slip_table_reachable: "reachable slip_table"
  using reachable_run [OF stuck_table_reachable slip_table_run] .

lemma ending_table_facts:
  "state ending_table = Finished"
  "required_suit ending_table = Some Clubs"
  "length (players ending_table) = 3"
  "\<not> is_active (players ending_table ! 0)"
  "finished_rank (players ending_table ! 0) = Some 3"
  "hand (players ending_table ! 0)
     = [Card R10 Spades, Card R10 Hearts, Card R10 Diamonds, Card R9 Clubs]"
  by code_simp+

lemma stuck_table_facts:
  "state stuck_table = Play"
  "\<not> paused stuck_table"
  "\<not> animating stuck_table"
  "\<not> showing_trick stuck_table"
  "resolve_after_animation stuck_table = None"
  "required_suit stuck_table = Some Clubs"
  "leader_index stuck_table = 1"
  "active_index stuck_table = Some 2"
  "trick_cards stuck_table
     = [(1, Card Jack Clubs), (2, Card R10 Clubs), (0, Card R5 Clubs)]"
  "get_active_players_indices stuck_table = [0, 2]"
  "count_active_players stuck_table = 2"
  "map hand (players stuck_table)
     = [[Card R10 Spades, Card R6 Hearts, Card R6 Clubs], [], [Card R10 Diamonds]]"
  by code_simp+

lemma last_lead_table_facts:
  "required_suit last_lead_table = None"
  "ranks_assigned last_lead_table = 1"
  "hand (players last_lead_table ! 2) = [Card Jack Clubs]"
  "\<not> isl (attempt_play_card last_lead_table 2 0)"
  "length (trick_cards (projr (attempt_play_card last_lead_table 2 0)))
     = Suc (length (trick_cards last_lead_table))"
  "hand (players (projr (attempt_play_card last_lead_table 2 0)) ! 2) = []"
  "length (players last_lead_table) = 3"
  "is_active (players last_lead_table ! 0)"
  "\<not> is_active (players last_lead_table ! 1)"
  "\<not> is_active (players (projr (attempt_play_card last_lead_table 2 0)) ! 0)"
  by code_simp+


lemma last_follow_table_facts:
  "state last_follow_table = Play"
  "\<not> animating last_follow_table"
  "active_index last_follow_table = Some 2"
  "required_suit last_follow_table = Some Clubs"
  "is_active (players last_follow_table ! 2)"
  "hand (players last_follow_table ! 2) = [Card Jack Clubs]"
  "trick_cards last_follow_table = [(0, Card R8 Clubs)]"
  "ranks_assigned last_follow_table = 1"
  "finish_order last_follow_table = [(''P2'', 1)]"
  "\<not> isl (attempt_play_card last_follow_table 2 0)"
  "length (trick_cards (projr (attempt_play_card last_follow_table 2 0)))
     = Suc (length (trick_cards last_follow_table))"
  "hand (players (projr (attempt_play_card last_follow_table 2 0)) ! 2) = []"
  by code_simp+

lemma slip_table_facts:
  "state slip_table = Finished"
  "\<not> is_active (players slip_table ! 1)"
  "finished_rank (players slip_table ! 1) = Some 1"
  "hand (players slip_table ! 1)
     = [Card R10 Diamonds, Card R5 Clubs, Card R10 Clubs, Card Jack Clubs]"
  by code_simp+

subsection \<open>The legality evaluator\<close>

lemma ending_deal_facts:
  "length (players ending_deal) = 3"
  "is_active (players ending_deal ! 0)"
  "required_suit ending_deal = None"
  "first_move ending_deal"
  "active_index ending_deal = Some 0"
  "hand (players ending_deal ! 0)
     = [Card R10 Spades, Card Jack Spades, Card Queen Spades, Card King Spades,
        Card Ace Spades, Card R10 Hearts, Card Jack Hearts, Card Queen Hearts,
        Card King Hearts, Card Ace Hearts, Card Jack Diamonds, Card Queen Diamonds,
        Card King Diamonds, Card Ace Diamonds, Card R8 Clubs, Card Queen Clubs,
        Card King Clubs, Card Ace Clubs]"
  by code_simp+

lemma stuck_table_seats:
  "length (players stuck_table) = 3"
  "\<not> is_active (players stuck_table ! Suc 0)"
  "hand (players stuck_table ! Suc 0) = []"
  "is_active (players stuck_table ! 2)"
  "hand (players stuck_table ! 2) = [Card R10 Diamonds]"
  "required_suit stuck_table = Some Clubs"
  by code_simp+

text \<open>
  Claim C1. For a seat of the table: an inactive seat has no playable index at all,
  whatever the index and whatever its hand. For an active seat and a card index within its
  hand: when a suit is required and the hand holds a card of that suit, the index is
  playable exactly when its card is of that suit; when a suit is required and the hand
  holds no card of it, the index is playable; when no suit is required, the game is at its
  first move and the seat is the one to move, the index is playable exactly when its card
  has rank Ace and suit Spades; and when no suit is required otherwise, the index is
  playable.
\<close>

theorem is_card_playable_contract:
  assumes seat: "player_idx < length (players g)"
  shows "(\<not> is_active (players g ! player_idx) \<longrightarrow>
            (\<forall>ci. is_card_playable g player_idx ci = Inr False))
       \<and> (is_active (players g ! player_idx) \<longrightarrow>
            (\<forall>ci. 0 \<le> ci \<and> ci < int (length (hand (players g ! player_idx))) \<longrightarrow>
               (\<forall>s. required_suit g = Some s
                      \<and> (\<exists>c \<in> set (hand (players g ! player_idx)). suit c = s) \<longrightarrow>
                  is_card_playable g player_idx ci
                    = Inr (suit (hand (players g ! player_idx) ! nat ci) = s))
             \<and> (\<forall>s. required_suit g = Some s
                      \<and> (\<forall>c \<in> set (hand (players g ! player_idx)). suit c \<noteq> s) \<longrightarrow>
                  is_card_playable g player_idx ci = Inr True)
             \<and> (required_suit g = None \<and> first_move g \<and> active_index g = Some player_idx \<longrightarrow>
                  is_card_playable g player_idx ci
                    = Inr (rank (hand (players g ! player_idx) ! nat ci) = Ace
                           \<and> suit (hand (players g ! player_idx) ! nat ci) = Spades))
             \<and> (required_suit g = None
                      \<and> \<not> (first_move g \<and> active_index g = Some player_idx) \<longrightarrow>
                  is_card_playable g player_idx ci = Inr True)))"
proof (intro conjI impI allI)
  fix ci
  assume "\<not> is_active (players g ! player_idx)"
  with seat show "is_card_playable g player_idx ci = Inr False"
    by (simp add: is_card_playable_def)
next
  fix ci s
  assume act: "is_active (players g ! player_idx)"
    and "0 \<le> ci \<and> ci < int (length (hand (players g ! player_idx)))"
  then have get: "py_get (hand (players g ! player_idx)) ci
               = Inr (hand (players g ! player_idx) ! nat ci)"
    by (simp add: py_get_in_range)
  {
    assume "required_suit g = Some s \<and> (\<exists>c \<in> set (hand (players g ! player_idx)). suit c = s)"
    with seat act get
    show "is_card_playable g player_idx ci
            = Inr (suit (hand (players g ! player_idx) ! nat ci) = s)"
      by (auto simp: is_card_playable_def has_suit_def Let_def)
  next
    assume "required_suit g = Some s \<and> (\<forall>c \<in> set (hand (players g ! player_idx)). suit c \<noteq> s)"
    with seat act get show "is_card_playable g player_idx ci = Inr True"
      by (auto simp: is_card_playable_def has_suit_def Let_def)
  }
next
  fix ci
  assume act: "is_active (players g ! player_idx)"
    and "0 \<le> ci \<and> ci < int (length (hand (players g ! player_idx)))"
  then have get: "py_get (hand (players g ! player_idx)) ci
               = Inr (hand (players g ! player_idx) ! nat ci)"
    by (simp add: py_get_in_range)
  {
    assume "required_suit g = None \<and> first_move g \<and> active_index g = Some player_idx"
    with seat act get
    show "is_card_playable g player_idx ci
            = Inr (rank (hand (players g ! player_idx) ! nat ci) = Ace
                   \<and> suit (hand (players g ! player_idx) ! nat ci) = Spades)"
      by (simp add: is_card_playable_def is_ace_of_spades_def Let_def)
  next
    assume "required_suit g = None \<and> \<not> (first_move g \<and> active_index g = Some player_idx)"
    with seat act show "is_card_playable g player_idx ci = Inr True"
      by (auto simp: is_card_playable_def Let_def)
  }
qed


theorem is_card_playable_contract_witness:
  "is_card_playable ending_deal 0 4 = Inr True
   \<and> is_card_playable ending_deal 0 3 = Inr False
   \<and> is_card_playable hearts_table 1 0 = Inr True
   \<and> is_card_playable hearts_table 1 1 = Inr False
   \<and> is_card_playable stuck_table 2 0 = Inr True
   \<and> is_card_playable stuck_table 1 0 = Inr False"
proof -
  have a: "is_card_playable ending_deal 0 4 = Inr True"
    and b: "is_card_playable ending_deal 0 3 = Inr False"
    using is_card_playable_contract [of 0 ending_deal]
    by (simp_all add: ending_deal_facts Card_def)
  have c: "is_card_playable hearts_table (Suc 0) 0 = Inr True"
    and d: "is_card_playable hearts_table (Suc 0) 1 = Inr False"
    using is_card_playable_contract [of "Suc 0" hearts_table]
    by (simp_all add: hearts_table_facts Card_def)
  have e: "is_card_playable stuck_table 2 0 = Inr True"
    using is_card_playable_contract [of 2 stuck_table]
    by (simp add: stuck_table_seats Card_def)
  have f: "is_card_playable stuck_table (Suc 0) 0 = Inr False"
    using is_card_playable_contract [of "Suc 0" stuck_table]
    by (simp add: stuck_table_seats)
  from a b c d e f show ?thesis by simp
qed

subsection \<open>Accepted plays\<close>

lemma play_accepted_cases:
  assumes "play_accepted g i ci g'"
  obtains (lead) k where "\<not> animating g" "i < length (players g)" "active_index g = Some i"
      "is_active (players g ! i)" "py_index (hand (players g ! i)) ci = Some k"
      "required_suit g = None"
      "first_move g \<longrightarrow> is_ace_of_spades (hand (players g ! i) ! k)"
      "g' = play_as_leader g i k"
  | (follow) k s where "\<not> animating g" "i < length (players g)" "active_index g = Some i"
      "is_active (players g ! i)" "py_index (hand (players g ! i)) ci = Some k"
      "required_suit g = Some s"
      "has_suit (players g ! i) s \<longrightarrow> suit (hand (players g ! i) ! k) = s"
      "g' = play_as_follower g i k s (has_suit (players g ! i) s)"
proof -
  from assms have att: "attempt_play_card g i ci = Inr g'"
    and len: "length (trick_cards g') = Suc (length (trick_cards g))"
    by (simp_all add: play_accepted_def)
  from att show ?thesis
  proof (cases rule: attempt_play_card_cases)
    case rejected
    then have "trick_cards g' = trick_cards g"
      by (metis game.select_convs(6) game.surjective game.update_convs(16))
    with len show ?thesis by simp
  next
    case (lead k)
    then show ?thesis using that(1) by blast
  next
    case (follow k s)
    then show ?thesis using that(2) by blast
  qed
qed

subsection \<open>Forgetting a pickup\<close>




subsection \<open>A trick that every seat has followed\<close>

text \<open>
  Claim C3 ends: once every currently active seat has played one card in a trick in which
  everyone followed the required suit, the trick always completes. In the second game the
  second seat leads its last card, the Jack of Clubs, and is ranked and made inactive at
  once. The third and the first seat, the only active seats, follow with clubs. The seat to
  move then passes to the third seat, not to the leader, who is skipped as inactive, so
  the test \<^verbatim>\<open>self.active_index == self.leader_index\<close> fails: no resolution is queued, the
  table stays in play with the three cards on it, and the third seat is asked to play again.
\<close>

theorem full_circle_trick_not_completed:
  "reachable stuck_table
   \<and> state stuck_table = Play \<and> \<not> animating stuck_table \<and> \<not> showing_trick stuck_table
   \<and> resolve_after_animation stuck_table = None
   \<and> required_suit stuck_table = Some Clubs
   \<and> trick_cards stuck_table
        = [(1, Card Jack Clubs), (2, Card R10 Clubs), (0, Card R5 Clubs)]
   \<and> get_active_players_indices stuck_table = [0, 2]
   \<and> leader_index stuck_table = 1 \<and> active_index stuck_table = Some 2"
  using stuck_table_reachable stuck_table_facts by simp

subsection \<open>Seats that are out\<close>

lemma attempt_inactive_rejected:
  "i < length (players g) \<Longrightarrow> \<not> is_active (players g ! i) \<Longrightarrow> attempt_play_card g i ci = Inr g"
  by (simp add: attempt_play_card_def Let_def)

lemma rank_empty_hands_keep:
  "i < length (players g) \<Longrightarrow> \<not> is_active (players g ! i)
     \<Longrightarrow> players (rank_empty_hands g) ! i = players g ! i"
  by (auto simp: rank_empty_hands_def assign_ranks_keep split: prod.splits)

lemma award_trick_status:
  "j < length (players g) \<Longrightarrow>
     is_active (players (award_trick sh g b r) ! j) = is_active (players g ! j)
   \<and> finished_rank (players (award_trick sh g b r) ! j) = finished_rank (players g ! j)"
  by (cases "j = r") (auto simp: award_trick_def Let_def pick_up_def)

lemma play_as_leader_keep:
  assumes "j < length (players g)" and "j \<noteq> i" and "\<not> is_active (players g ! j)"
  shows "players (play_as_leader g i k) ! j = players g ! j"
  using assms by (simp add: play_as_leader_def Let_def check_game_end_keep)

lemma warning_only:
  "g' = g\<lparr>warning_text := w\<rparr> \<Longrightarrow>
     players g' = players g \<and> trick_cards g' = trick_cards g \<and> state g' = state g
     \<and> ranks_assigned g' = ranks_assigned g \<and> finish_order g' = finish_order g
     \<and> required_suit g' = required_suit g \<and> active_index g' = active_index g
     \<and> leader_index g' = leader_index g"
  by simp

lemma step_length: "step g h \<Longrightarrow> length (players h) = length (players g)"
proof (induction rule: step.induct)
  case (played g i ci g')
  then show ?case
    by (cases rule: attempt_play_card_cases) (auto dest: warning_only)
next
  case (landed g)
  then show ?case
    by (simp add: animation_finished_def Let_def split: option.splits)
next
  case (resolved sh g t g')
  from resolved(2) show ?case by (cases rule: resolved_form) simp
next
  case (toggled g)
  then show ?case by (simp add: toggle_pause_def Let_def)
qed


lemma step_inactive:
  assumes "step g h" and "j < length (players g)" and "\<not> is_active (players g ! j)"
  shows "\<not> is_active (players h ! j)
       \<and> finished_rank (players h ! j) = finished_rank (players g ! j)"
  using assms
proof (induction rule: step.induct)
  case (played g i ci g')
  from played(1) show ?case
  proof (cases rule: attempt_play_card_cases)
    case rejected
    with played(3) show ?thesis by (auto dest: warning_only)
  next
    case (lead k)
    with played(3) have "j \<noteq> i" by auto
    from play_as_leader_keep [OF played(2) this played(3)] lead(8) played(3)
    show ?thesis by simp
  next
    case (follow k s)
    with played(3) have "j \<noteq> i" by auto
    from play_as_follower_other [OF this] follow(8) played(3) show ?thesis by simp
  qed
next
  case (landed g)
  then show ?case
    by (simp add: animation_finished_def Let_def split: option.splits)
next
  case (resolved sh g t g')
  from resolved(2) show ?case
  proof (cases rule: resolved_form)
    case (1 b)
    let ?g2 = "(award_trick sh g b (trick_taker g))\<lparr>trick_cards := [], required_suit := None\<rparr>"
    have j2: "j < length (players ?g2)" using resolved(3) by simp
    have st: "\<not> is_active (players ?g2 ! j)"
      "finished_rank (players ?g2 ! j) = finished_rank (players g ! j)"
      using award_trick_status [OF resolved(3), of sh b "trick_taker g"] resolved(4) by simp_all
    have k3: "players (rank_empty_hands ?g2) ! j = players ?g2 ! j"
      using rank_empty_hands_keep [OF j2 st(1)] .
    have j3: "j < length (players (rank_empty_hands ?g2))" using j2 by simp
    have "players (check_game_end (rank_empty_hands ?g2)) ! j = players ?g2 ! j"
      using check_game_end_keep [OF j3] k3 st(1) by simp
    with st 1(3) show ?thesis by simp
  qed
next
  case (toggled g)
  then show ?case by (simp add: toggle_pause_def Let_def)
qed

lemma steps_inactive:
  assumes "step\<^sup>*\<^sup>* g h" and "j < length (players g)" and "\<not> is_active (players g ! j)"
  shows "length (players h) = length (players g) \<and> \<not> is_active (players h ! j)
       \<and> finished_rank (players h ! j) = finished_rank (players g ! j)"
  using assms
proof (induction rule: rtranclp_induct)
  case base
  then show ?case by simp
next
  case (step y z)
  then have y: "length (players y) = length (players g)" "\<not> is_active (players y ! j)"
    "finished_rank (players y ! j) = finished_rank (players g ! j)" by simp_all
  from step_inactive [OF step(2)] step_length [OF step(2)] y step(4)
  show ?case by simp
qed


lemma count_active_same:
  assumes "map is_active xs = map is_active ys"
  shows "length (filter is_active xs) = length (filter is_active ys)"
proof -
  have "length (filter is_active xs) = length (filter (\<lambda>b. b) (map is_active xs))"
    by (simp add: comp_def)
  also have "\<dots> = length (filter (\<lambda>b. b) (map is_active ys))" by (simp add: assms)
  also have "\<dots> = length (filter is_active ys)" by (simp add: comp_def)
  finally show ?thesis .
qed

lemma clear_pickup_count:
  "length (filter is_active (xs[i := clear_pickup (xs ! i)])) = length (filter is_active xs)"
proof (rule count_active_same)
  show "map is_active (xs[i := clear_pickup (xs ! i)]) = map is_active xs"
    by (cases "i < length xs") (simp_all add: map_update list_update_same_conv list_update_beyond)
qed

lemma first_move_clear:
  "(if first_move g then g\<lparr>first_move := False\<rparr> else g) = g\<lparr>first_move := False\<rparr>"
  by (cases g) auto

lemma play_as_leader_emptied:
  assumes i: "i < length (players g)"
    and emp: "take k (hand (players g ! i)) @ drop (Suc k) (hand (players g ! i)) = []"
  shows "\<not> is_active (players (play_as_leader g i k) ! i)"
    and "finished_rank (players (play_as_leader g i k) ! i) = Some (ranks_assigned g + 1)"
    and "\<exists>rest. finish_order (play_as_leader g i k)
           = finish_order g @ (name (players g ! i), ranks_assigned g + 1) # rest"
    and "ranks_assigned g + 1 \<le> ranks_assigned (play_as_leader g i k)"
    and "count_active_players (play_as_leader g i k) \<le> 1
           \<longrightarrow> state (play_as_leader g i k) = Finished"
proof -
  let ?c = "hand (players g ! i) ! k"
  let ?p1 = "(players g ! i)\<lparr>hand := take k (hand (players g ! i))
                                       @ drop (Suc k) (hand (players g ! i))\<rparr>"
  let ?g3 = "g\<lparr>players := (players g)[i := ?p1],
               trick_cards := trick_cards g @ [(i, ?c)], animating := True,
               animating_card := Some ?c, first_move := False,
               required_suit := Some (suit ?c),
               active_index := next_active_index ((players g)[i := ?p1]) i\<rparr>"
  let ?ge = "?g3\<lparr>ranks_assigned := ranks_assigned g + 1,
               players := (players g)[i := ?p1\<lparr>finished_rank := Some (ranks_assigned g + 1),
                                               is_active := False\<rparr>],
               finish_order := finish_order g @ [(name (players g ! i), ranks_assigned g + 1)]\<rparr>"
  let ?g4 = "check_game_end ?ge"
  have form: "play_as_leader g i k
      = ?g4\<lparr>players := (players ?g4)[i := clear_pickup (players ?g4 ! i)]\<rparr>"
    using i emp
    by (simp add: play_as_leader_def Let_def card_count_def first_move_clear
          del: append_is_Nil_conv)
  have ie: "i < length (players ?ge)" using i by simp
  have ina: "\<not> is_active (players ?ge ! i)" using i by simp
  have keep: "players ?g4 ! i = players ?ge ! i" using check_game_end_keep [OF ie ina] .
  have i4: "i < length (players ?g4)" using i by simp
  show "\<not> is_active (players (play_as_leader g i k) ! i)"
    unfolding form using i4 keep i by simp
  show "finished_rank (players (play_as_leader g i k) ! i) = Some (ranks_assigned g + 1)"
    unfolding form using i4 keep i by simp
  from check_game_end_grow [of ?ge]
  show "\<exists>rest. finish_order (play_as_leader g i k)
           = finish_order g @ (name (players g ! i), ranks_assigned g + 1) # rest"
    unfolding form by auto
  from check_game_end_grow [of ?ge]
  show "ranks_assigned g + 1 \<le> ranks_assigned (play_as_leader g i k)"
    unfolding form by auto
  show "count_active_players (play_as_leader g i k) \<le> 1
           \<longrightarrow> state (play_as_leader g i k) = Finished"
  proof (cases "length (filter is_active (players ?ge)) \<le> 1")
    case True
    then show ?thesis unfolding form by (simp add: check_game_end_state)
  next
    case False
    have eq: "?g4 = ?ge" unfolding check_game_end_def by (rule if_not_P) (rule False)
    have "count_active_players (play_as_leader g i k)
                 = length (filter is_active (players ?g4))"
      unfolding form count_active_players_def by (simp add: clear_pickup_count)
    also have "\<dots> = length (filter is_active (players ?ge))" by (simp only: eq)
    finally show ?thesis using False by simp
  qed
qed

subsection \<open>Ranking a seat whose hand is empty\<close>

text \<open>
  Claim C5, as stated, covers following plays too. In the first game, continued as
  described above, the third seat holds only the Jack of Clubs and follows the Eight of
  Clubs with it. The play is accepted and empties the hand, but after the call the seat is
  still active and has no rank, and the rank counter and the finish order are as before.
\<close>

theorem follower_with_last_card_not_ranked:
  "reachable last_follow_table
   \<and> required_suit last_follow_table = Some Clubs
   \<and> is_active (players last_follow_table ! 2)
   \<and> hand (players last_follow_table ! 2) = [Card Jack Clubs]
   \<and> \<not> isl (attempt_play_card last_follow_table 2 0)
   \<and> trick_cards (projr (attempt_play_card last_follow_table 2 0))
        = [(0, Card R8 Clubs), (2, Card Jack Clubs)]
   \<and> hand (players (projr (attempt_play_card last_follow_table 2 0)) ! 2) = []
   \<and> is_active (players (projr (attempt_play_card last_follow_table 2 0)) ! 2)
   \<and> finished_rank (players (projr (attempt_play_card last_follow_table 2 0)) ! 2) = None
   \<and> ranks_assigned (projr (attempt_play_card last_follow_table 2 0))
        = ranks_assigned last_follow_table
   \<and> finish_order (projr (attempt_play_card last_follow_table 2 0))
        = finish_order last_follow_table"
proof -
  have "\<not> isl (attempt_play_card last_follow_table 2 0)"
    "trick_cards (projr (attempt_play_card last_follow_table 2 0))
        = [(0, Card R8 Clubs), (2, Card Jack Clubs)]"
    "hand (players (projr (attempt_play_card last_follow_table 2 0)) ! 2) = []"
    "is_active (players (projr (attempt_play_card last_follow_table 2 0)) ! 2)"
    "finished_rank (players (projr (attempt_play_card last_follow_table 2 0)) ! 2) = None"
    "ranks_assigned (projr (attempt_play_card last_follow_table 2 0)) = 1"
    "finish_order (projr (attempt_play_card last_follow_table 2 0)) = [(''P2'', 1)]"
    by code_simp+
  with last_follow_table_reachable last_follow_table_facts show ?thesis by simp
qed


text \<open>
  Claim C5, amended. When an accepted play of a seat that leads removes the last card of its
  hand, then within that call the seat is made inactive, is given the rank one above the
  counter, is appended to the finish order with that rank, and the game end is checked (so
  the state is \<^verbatim>\<open>finished\<close> whenever at most one seat is active afterwards); in every later
  state of the game the seat is inactive with that same rank and no play of it is
  accepted. When an accepted play into a trick already led removes the last card, that
  call leaves the seat active and unranked, and the rank counter, the finish order and the
  state as they were.
\<close>

theorem emptied_hand_ranking:
  assumes acc: "play_accepted g i ci g'" and emp: "hand (players g' ! i) = []"
  shows "(required_suit g = None \<longrightarrow>
            \<not> is_active (players g' ! i)
          \<and> finished_rank (players g' ! i) = Some (ranks_assigned g + 1)
          \<and> (\<exists>rest. finish_order g'
                 = finish_order g @ (name (players g ! i), ranks_assigned g + 1) # rest)
          \<and> ranks_assigned g + 1 \<le> ranks_assigned g'
          \<and> (count_active_players g' \<le> 1 \<longrightarrow> state g' = Finished)
          \<and> (\<forall>h. step\<^sup>*\<^sup>* g' h \<longrightarrow>
                 \<not> is_active (players h ! i)
               \<and> finished_rank (players h ! i) = Some (ranks_assigned g + 1)
               \<and> (\<forall>cj h'. \<not> play_accepted h i cj h')))
       \<and> (required_suit g \<noteq> None \<longrightarrow>
            is_active (players g' ! i)
          \<and> finished_rank (players g' ! i) = finished_rank (players g ! i)
          \<and> ranks_assigned g' = ranks_assigned g
          \<and> finish_order g' = finish_order g
          \<and> state g' = state g)"
  using acc
proof (cases rule: play_accepted_cases)
  case (lead k)
  have e: "take k (hand (players g ! i)) @ drop (Suc k) (hand (players g ! i)) = []"
    using emp lead(8) play_as_leader_hand [OF lead(2), of k] by simp
  note L = play_as_leader_emptied [OF lead(2) e]
  have i': "i < length (players g')" using lead(2,8) by simp
  have later: "\<not> is_active (players h ! i)
               \<and> finished_rank (players h ! i) = Some (ranks_assigned g + 1)
               \<and> (\<forall>cj h'. \<not> play_accepted h i cj h')" if "step\<^sup>*\<^sup>* g' h" for h
  proof -
    from steps_inactive [OF that i'] L(1,2) lead(8)
    have h: "length (players h) = length (players g')" "\<not> is_active (players h ! i)"
      "finished_rank (players h ! i) = Some (ranks_assigned g + 1)" by simp_all
    have "\<not> play_accepted h i cj h'" for cj h'
      using attempt_inactive_rejected [of i h cj] h(1,2) i'
      by (auto simp: play_accepted_def)
    with h show ?thesis by simp
  qed
  from L lead(6,8) later show ?thesis by simp
next
  case (follow k s)
  from play_as_follower_seat(2,3) [OF follow(2), of k s "has_suit (players g ! i) s"]
    follow(4,6,8)
  show ?thesis by simp
qed


theorem emptied_hand_ranking_witness:
  "\<not> is_active (players (projr (attempt_play_card last_lead_table 2 0)) ! 2)
   \<and> finished_rank (players (projr (attempt_play_card last_lead_table 2 0)) ! 2) = Some 2
   \<and> is_active (players (projr (attempt_play_card last_follow_table 2 0)) ! 2)
   \<and> ranks_assigned (projr (attempt_play_card last_follow_table 2 0)) = 1"
proof -
  have a: "play_accepted last_lead_table 2 0 (projr (attempt_play_card last_lead_table 2 0))"
    using last_lead_table_facts(4,5) by (simp add: play_accepted_def)
  have b: "play_accepted last_follow_table 2 0
             (projr (attempt_play_card last_follow_table 2 0))"
    using last_follow_table_facts(10,11) by (simp add: play_accepted_def)
  from emptied_hand_ranking [OF a last_lead_table_facts(6)]
    emptied_hand_ranking [OF b last_follow_table_facts(12)]
    last_lead_table_facts(1,2) last_follow_table_facts(4,8)
  show ?thesis by simp
qed

subsection \<open>The hands of inactive seats\<close>

lemma check_game_end_active_or_finished:
  "i < length (players g) \<Longrightarrow>
     is_active (players (check_game_end g) ! i) = is_active (players g ! i)
   \<or> state (check_game_end g) = Finished"
  by (auto simp: check_game_end_def split: prod.splits)

lemma close_trick_finished [simp]: "state (close_trick g) = Finished \<longleftrightarrow> state g = Finished"
  by (simp add: close_trick_def Let_def)

lemma rank_empty_hands_active:
  "i < length (players g) \<Longrightarrow>
     is_active (players (rank_empty_hands g) ! i)
       \<longleftrightarrow> is_active (players g ! i) \<and> hand (players g ! i) \<noteq> []"
  by (auto simp: rank_empty_hands_def assign_ranks_active split: prod.splits)

lemma play_as_leader_status:
  assumes i: "i < length (players g)" and j: "j < length (players g)"
    and act: "is_active (players g ! j)"
    and out: "\<not> is_active (players (play_as_leader g i k) ! j)"
  shows "hand (players (play_as_leader g i k) ! j) = []
       \<or> state (play_as_leader g i k) = Finished"
proof (cases "take k (hand (players g ! i)) @ drop (Suc k) (hand (players g ! i)) = []")
  case False
  then have "is_active (players (play_as_leader g i k) ! j) = is_active (players g ! j)"
    using i j
    by (cases "j = i")
       (simp_all add: play_as_leader_def Let_def card_count_def first_move_clear
          del: append_is_Nil_conv)
  with act out show ?thesis by simp
next
  case True
  show ?thesis
  proof (cases "j = i")
    case same: True
    with True play_as_leader_hand [OF i, of k] show ?thesis by simp
  next
    case other: False
    let ?c = "hand (players g ! i) ! k"
    let ?p1 = "(players g ! i)\<lparr>hand := take k (hand (players g ! i))
                                       @ drop (Suc k) (hand (players g ! i))\<rparr>"
    let ?ge = "g\<lparr>players := (players g)[i := ?p1],
               trick_cards := trick_cards g @ [(i, ?c)], animating := True,
               animating_card := Some ?c, first_move := False,
               required_suit := Some (suit ?c),
               active_index := next_active_index ((players g)[i := ?p1]) i,
               ranks_assigned := ranks_assigned g + 1,
               players := (players g)[i := ?p1\<lparr>finished_rank := Some (ranks_assigned g + 1),
                                               is_active := False\<rparr>],
               finish_order := finish_order g @ [(name (players g ! i), ranks_assigned g + 1)]\<rparr>"
    let ?g4 = "check_game_end ?ge"
    have form: "play_as_leader g i k
        = ?g4\<lparr>players := (players ?g4)[i := clear_pickup (players ?g4 ! i)]\<rparr>"
      using i True
      by (simp add: play_as_leader_def Let_def card_count_def first_move_clear
            del: append_is_Nil_conv)
    have je: "j < length (players ?ge)" using j by simp
    from check_game_end_active_or_finished [OF je] other j act out
    show ?thesis unfolding form by auto
  qed
qed


lemma resolved_hand:
  assumes res: "actually_resolve_trick sh g t = Inr g'" and j: "j < length (players g)"
  shows "hand (players g' ! j) = hand (players g ! j)
       \<or> (just_picked_up (players g' ! j) \<and> leader_index g' = j \<and> active_index g' = Some j
          \<and> trick_cards g' = [])"
  using res
proof (cases rule: resolved_form)
  case (1 b)
  let ?r = "trick_taker g"
  let ?g2 = "(award_trick sh g b ?r)\<lparr>trick_cards := [], required_suit := None\<rparr>"
  have j2: "j < length (players ?g2)" and j3: "j < length (players (rank_empty_hands ?g2))"
    using j by simp_all
  have h: "hand (players g' ! j) = hand (players ?g2 ! j)"
    using check_game_end_hand [OF j3] rank_empty_hands_hand [OF j2] 1(3) by simp
  have f: "just_picked_up (players g' ! j) = just_picked_up (players ?g2 ! j)"
    using check_game_end_flags [OF j3] rank_empty_hands_flags [OF j2] 1(3) by simp
  show ?thesis
  proof (cases "j = ?r \<and> b")
    case True
    with j have "just_picked_up (players ?g2 ! j)"
      using award_trick_tochoo [of ?r g sh] by simp
    with f True 1(3) show ?thesis by simp
  next
    case False
    then have "players ?g2 ! j = players g ! j"
      using award_trick_players [OF j, of ?r b sh] by auto
    with h show ?thesis by simp
  qed
qed

lemma resolved_status:
  assumes res: "actually_resolve_trick sh g t = Inr g'" and j: "j < length (players g)"
    and act: "is_active (players g ! j)" and out: "\<not> is_active (players g' ! j)"
  shows "hand (players g' ! j) = [] \<or> state g' = Finished"
  using res
proof (cases rule: resolved_form)
  case (1 b)
  let ?r = "trick_taker g"
  let ?g2 = "(award_trick sh g b ?r)\<lparr>trick_cards := [], required_suit := None\<rparr>"
  let ?g3 = "rank_empty_hands ?g2"
  have j2: "j < length (players ?g2)" and j3: "j < length (players ?g3)"
    using j by simp_all
  have a2: "is_active (players ?g2 ! j)"
    using award_trick_status [OF j, of sh b ?r] act by simp
  have h: "hand (players g' ! j) = hand (players ?g2 ! j)"
    using check_game_end_hand [OF j3] rank_empty_hands_hand [OF j2] 1(3) by simp
  show ?thesis
  proof (cases "hand (players ?g2 ! j) = []")
    case True
    with h show ?thesis by simp
  next
    case False
    with a2 rank_empty_hands_active [OF j2] have "is_active (players ?g3 ! j)" by simp
    with check_game_end_active_or_finished [OF j3] out 1(3) show ?thesis by auto
  qed
qed

text \<open>
  Claim C4, as stated, says that in every state reachable from a deal an inactive seat has
  an empty hand. The first game ends with the first seat as the last one left:
  \<^verbatim>\<open>check_game_end\<close> gives it the last rank and makes it inactive while it holds four cards.
\<close>

theorem loser_keeps_cards:
  "reachable ending_table \<and> state ending_table = Finished
   \<and> \<not> is_active (players ending_table ! 0)
   \<and> hand (players ending_table ! 0)
        = [Card R10 Spades, Card R10 Hearts, Card R10 Diamonds, Card R9 Clubs]"
  using ending_table_reachable ending_table_facts by simp

text \<open>
  Claim C4, amended. A step of the game (a call of \<^verbatim>\<open>attempt_play_card\<close>, the landing of
  a card, a commit by \<^verbatim>\<open>actually_resolve_trick\<close>, or \<^verbatim>\<open>toggle_pause\<close>) leaves the hand of
  an inactive seat as it was, the one case set aside being the seat that has just picked
  up a trick and leads next, about which nothing is said here. And whenever a step makes an
  active seat inactive, that seat's hand is empty or the step has ended the game, where
  the last seat left is made inactive with its cards.
\<close>

theorem hands_of_inactive_seats:
  assumes "step g g'" and "j < length (players g)"
  shows "(\<not> is_active (players g ! j) \<longrightarrow>
            hand (players g' ! j) = hand (players g ! j)
          \<or> (just_picked_up (players g' ! j) \<and> leader_index g' = j
              \<and> active_index g' = Some j \<and> trick_cards g' = []))
       \<and> (is_active (players g ! j) \<and> \<not> is_active (players g' ! j) \<longrightarrow>
            hand (players g' ! j) = [] \<or> state g' = Finished)"
  using assms
proof (induction rule: step.induct)
  case (played g i ci g')
  from played(1) show ?case
  proof (cases rule: attempt_play_card_cases)
    case rejected
    then show ?thesis by (auto dest: warning_only)
  next
    case (lead k)
    have "hand (players g' ! j) = hand (players g ! j)" if "\<not> is_active (players g ! j)"
    proof -
      from that lead(4) have "j \<noteq> i" by auto
      from play_as_leader_keep [OF played(2) this that] lead(8) show ?thesis by simp
    qed
    moreover have "hand (players g' ! j) = [] \<or> state g' = Finished"
      if "is_active (players g ! j)" "\<not> is_active (players g' ! j)"
      using play_as_leader_status [OF lead(2) played(2) that(1)] that(2) lead(8) by simp
    ultimately show ?thesis by blast
  next
    case (follow k s)
    have "hand (players g' ! j) = hand (players g ! j)" if "\<not> is_active (players g ! j)"
    proof -
      from that follow(4) have "j \<noteq> i" by auto
      from play_as_follower_other [OF this] follow(8) show ?thesis by simp
    qed
    moreover have "is_active (players g' ! j) = is_active (players g ! j)"
      using play_as_follower_seat(2) [OF follow(2), of k s "has_suit (players g ! i) s"]
        play_as_follower_other [of j i g k s "has_suit (players g ! i) s"] follow(8)
      by (cases "j = i") simp_all
    ultimately show ?thesis by blast
  qed
next
  case (landed g)
  then show ?case
    by (simp add: animation_finished_def Let_def split: option.splits)
next
  case (resolved sh g t g')
  from resolved_hand [OF resolved(2,3)] resolved_status [OF resolved(2,3)]
  show ?case by blast
next
  case (toggled g)
  then show ?case by (simp add: toggle_pause_def Let_def)
qed


theorem hands_of_inactive_seats_witness:
  "(hand (players (projr (attempt_play_card last_lead_table 2 0)) ! 1)
      = hand (players last_lead_table ! 1)
    \<or> (just_picked_up (players (projr (attempt_play_card last_lead_table 2 0)) ! 1)
        \<and> leader_index (projr (attempt_play_card last_lead_table 2 0)) = 1
        \<and> active_index (projr (attempt_play_card last_lead_table 2 0)) = Some 1
        \<and> trick_cards (projr (attempt_play_card last_lead_table 2 0)) = []))
   \<and> (hand (players (projr (attempt_play_card last_lead_table 2 0)) ! 0) = []
      \<or> state (projr (attempt_play_card last_lead_table 2 0)) = Finished)"
proof -
  have "attempt_play_card last_lead_table 2 0
          = Inr (projr (attempt_play_card last_lead_table 2 0))"
    using last_lead_table_facts(4) by simp
  then have st: "step last_lead_table (projr (attempt_play_card last_lead_table 2 0))"
    by (rule step.played)
  from hands_of_inactive_seats [OF st, of 1] hands_of_inactive_seats [OF st, of 0]
    last_lead_table_facts(7,8,9,10)
  show ?thesis by simp
qed

subsection \<open>The computer's choice when a suit is required\<close>

lemma py_min_key_mem: "py_min_key f x xs \<in> set (x # xs)"
  unfolding py_min_key_def by (induction xs arbitrary: x) auto

lemma py_min_key_mono: "f (py_min_key f x xs) \<le> f x"
  unfolding py_min_key_def
proof (induction xs arbitrary: x)
  case Nil
  then show ?case by simp
next
  case (Cons a xs)
  have "f (foldl (\<lambda>m y. if f y < f m then y else m) (if f a < f x then a else x) xs)
          \<le> f (if f a < f x then a else x)"
    by (rule Cons.IH)
  also have "\<dots> \<le> f x" by simp
  finally show ?case by simp
qed

lemma py_min_key_le: "y \<in> set (x # xs) \<Longrightarrow> f (py_min_key f x xs) \<le> f y"
proof (induction xs arbitrary: x)
  case Nil
  then show ?case by (simp add: py_min_key_def)
next
  case (Cons a xs)
  have step: "py_min_key f x (a # xs) = py_min_key f (if f a < f x then a else x) xs"
    by (simp add: py_min_key_def)
  show ?case
  proof (cases "y \<in> set xs")
    case True
    then show ?thesis unfolding step by (intro Cons.IH) simp
  next
    case False
    with Cons.prems have "y = x \<or> y = a" by auto
    then have "f (if f a < f x then a else x) \<le> f y" by auto
    with py_min_key_mono [of f "if f a < f x then a else x" xs]
    show ?thesis unfolding step by (rule order_trans)
  qed
qed

lemma set_indices_where: "set (indices_where t h) = {i. i < length h \<and> t (h ! i)}"
  by (auto simp: indices_where_def)

lemma lowest_index_mem: "idxs \<noteq> [] \<Longrightarrow> lowest_index h idxs \<in> set idxs"
  using py_min_key_mem [of "\<lambda>i. card_value (h ! i)" "hd idxs" "tl idxs"]
  by (cases idxs) (simp_all add: lowest_index_def)

lemma lowest_index_le:
  "j \<in> set idxs \<Longrightarrow> card_value (h ! lowest_index h idxs) \<le> card_value (h ! j)"
  using py_min_key_le [of j "hd idxs" "tl idxs" "\<lambda>i. card_value (h ! i)"]
  by (cases idxs) (simp_all add: lowest_index_def)

lemma highest_index_mem: "idxs \<noteq> [] \<Longrightarrow> highest_index h idxs \<in> set idxs"
  using py_max_key_mem [of "\<lambda>i. card_value (h ! i)" "hd idxs" "tl idxs"]
  by (cases idxs) (simp_all add: highest_index_def)

lemma highest_index_ge:
  "j \<in> set idxs \<Longrightarrow> card_value (h ! j) \<le> card_value (h ! highest_index h idxs)"
  using py_max_key_ge [of j "hd idxs" "tl idxs" "\<lambda>i. card_value (h ! i)"]
  by (cases idxs) (simp_all add: highest_index_def)

lemma has_suit_indices: "has_suit p s \<longleftrightarrow> indices_where (\<lambda>c. suit c = s) (hand p) \<noteq> []"
proof -
  have "indices_where (\<lambda>c. suit c = s) (hand p) \<noteq> []
          \<longleftrightarrow> set (indices_where (\<lambda>c. suit c = s) (hand p)) \<noteq> {}" by simp
  also have "\<dots> \<longleftrightarrow> (\<exists>i < length (hand p). suit (hand p ! i) = s)"
    by (auto simp: set_indices_where)
  also have "\<dots> \<longleftrightarrow> has_suit p s"
    unfolding has_suit_def by (metis in_set_conv_nth)
  finally show ?thesis by simp
qed


text \<open>
  Claim C8, as stated, speaks of any seat with a non-empty hand. At the end of the first
  game Clubs is the required suit and the first seat, inactive, holds four cards:
  \<^verbatim>\<open>cpu_choose_card_index\<close> returns the index of its only club, and the legality check
  refuses that index, as it refuses every index of an inactive seat.
\<close>

theorem cpu_choice_of_inactive_seat_not_playable:
  "reachable ending_table \<and> required_suit ending_table = Some Clubs
   \<and> hand (players ending_table ! 0)
        = [Card R10 Spades, Card R10 Hearts, Card R10 Diamonds, Card R9 Clubs]
   \<and> cpu_choose_card_index ending_table 0 = Inr (Some 3)
   \<and> is_card_playable ending_table 0 3 = Inr False"
proof -
  have "cpu_choose_card_index ending_table 0 = Inr (Some 3)"
    "is_card_playable ending_table 0 3 = Inr False"
    by code_simp+
  with ending_table_reachable ending_table_facts show ?thesis by simp
qed

text \<open>
  Claim C8, amended. When a suit is required, for an active seat of the table with a
  non-empty hand \<^verbatim>\<open>cpu_choose_card_index\<close> returns an index of the hand that passes
  \<^verbatim>\<open>is_card_playable\<close>. If the seat holds the required suit, the card at the index is of
  that suit and no card of that suit in the hand has a lower value. Otherwise, if the seat
  has just picked up, remembers a suit to avoid and holds a card of another suit, the card
  at the index is not of the avoided suit and no such card in the hand has a higher value;
  and if not, no card in the hand has a higher value.
\<close>

theorem cpu_follows_policy:
  assumes seat: "i < length (players g)"
    and act: "is_active (players g ! i)"
    and req: "required_suit g = Some s"
    and cards: "hand (players g ! i) \<noteq> []"
  shows "\<exists>k. cpu_choose_card_index g i = Inr (Some k)
     \<and> k < length (hand (players g ! i))
     \<and> is_card_playable g i (int k) = Inr True
     \<and> (has_suit (players g ! i) s \<longrightarrow>
           suit (hand (players g ! i) ! k) = s
         \<and> (\<forall>j < length (hand (players g ! i)). suit (hand (players g ! i) ! j) = s \<longrightarrow>
               card_value (hand (players g ! i) ! k) \<le> card_value (hand (players g ! i) ! j)))
     \<and> (\<not> has_suit (players g ! i) s \<longrightarrow>
           (if just_picked_up (players g ! i) \<and> avoid_suit (players g ! i) \<noteq> None
               \<and> (\<exists>j < length (hand (players g ! i)).
                     Some (suit (hand (players g ! i) ! j)) \<noteq> avoid_suit (players g ! i))
            then Some (suit (hand (players g ! i) ! k)) \<noteq> avoid_suit (players g ! i)
               \<and> (\<forall>j < length (hand (players g ! i)).
                     Some (suit (hand (players g ! i) ! j)) \<noteq> avoid_suit (players g ! i) \<longrightarrow>
                     card_value (hand (players g ! i) ! j)
                       \<le> card_value (hand (players g ! i) ! k))
            else (\<forall>j < length (hand (players g ! i)).
                     card_value (hand (players g ! i) ! j)
                       \<le> card_value (hand (players g ! i) ! k))))"
proof -
  let ?p = "players g ! i"
  let ?h = "hand ?p"
  let ?avoid = "if just_picked_up ?p then avoid_suit ?p else None"
  let ?same = "indices_where (\<lambda>c. suit c = s) ?h"
  let ?non = "indices_where (\<lambda>c. Some (suit c) \<noteq> ?avoid) ?h"
  let ?all = "[0 ..< length ?h]"
  have all_ne: "?all \<noteq> []" using cards by simp
  have playable: "is_card_playable g i (int k) = Inr (has_suit ?p s \<longrightarrow> suit (?h ! k) = s)"
    if "k < length ?h" for k
    using that seat act req
    by (auto simp: is_card_playable_def py_get_def py_index_def Let_def)
  show ?thesis
  proof (cases "has_suit ?p s")
    case True
    then have ne: "?same \<noteq> []" by (simp add: has_suit_indices)
    let ?k = "lowest_index ?h ?same"
    have res: "cpu_choose_card_index g i = Inr (Some ?k)"
      using seat cards req ne by (simp add: cpu_choose_card_index_def Let_def)
    from lowest_index_mem [OF ne] have k: "?k < length ?h" "suit (?h ! ?k) = s"
      by (simp_all add: set_indices_where)
    have low: "card_value (?h ! ?k) \<le> card_value (?h ! j)"
      if "j < length ?h" "suit (?h ! j) = s" for j
      using lowest_index_le [of j ?same ?h] that by (simp add: set_indices_where)
    from res k low playable [OF k(1)] True show ?thesis by simp
  next
    case False
    then have emp: "?same = []" by (simp add: has_suit_indices)
    show ?thesis
    proof (cases "?avoid \<noteq> None \<and> ?non \<noteq> []")
      case True
      let ?k = "highest_index ?h ?non"
      have res: "cpu_choose_card_index g i = Inr (Some ?k)"
        using seat cards req emp True by (simp add: cpu_choose_card_index_def Let_def)
      from True have ne: "?non \<noteq> []" by simp
      from highest_index_mem [OF ne] have k: "?k < length ?h" "Some (suit (?h ! ?k)) \<noteq> ?avoid"
        by (simp_all add: set_indices_where)
      have high: "card_value (?h ! j) \<le> card_value (?h ! ?k)"
        if "j < length ?h" "Some (suit (?h ! j)) \<noteq> ?avoid" for j
        using highest_index_ge [of j ?non ?h] that by (simp add: set_indices_where)
      from True have jp: "just_picked_up ?p" "avoid_suit ?p \<noteq> None"
        by (auto split: if_splits)
      from ne have ex: "\<exists>j < length ?h. Some (suit (?h ! j)) \<noteq> avoid_suit ?p"
        using highest_index_mem [OF ne] jp by (auto simp: set_indices_where)
      from res k high playable [OF k(1)] False jp ex show ?thesis by simp
    next
      case no: False
      let ?k = "highest_index ?h ?all"
      have res: "cpu_choose_card_index g i = Inr (Some ?k)"
        using seat cards req emp no by (auto simp: cpu_choose_card_index_def Let_def)
      from highest_index_mem [OF all_ne] have k: "?k < length ?h" by simp
      have high: "card_value (?h ! j) \<le> card_value (?h ! ?k)" if "j < length ?h" for j
        using highest_index_ge [of j ?all ?h] that by simp
      have cond: "\<not> (just_picked_up ?p \<and> avoid_suit ?p \<noteq> None
               \<and> (\<exists>j < length ?h. Some (suit (?h ! j)) \<noteq> avoid_suit ?p))"
      proof
        assume a: "just_picked_up ?p \<and> avoid_suit ?p \<noteq> None
               \<and> (\<exists>j < length ?h. Some (suit (?h ! j)) \<noteq> avoid_suit ?p)"
        then obtain j where "j < length ?h" "Some (suit (?h ! j)) \<noteq> ?avoid" by auto
        then have "j \<in> set ?non" by (simp add: set_indices_where)
        then have "?non \<noteq> []" by auto
        with a no show False by simp
      qed
      from res k high playable [OF k] False cond show ?thesis by auto
    qed
  qed
qed


theorem cpu_follows_policy_witness:
  "\<exists>k. cpu_choose_card_index hearts_table 1 = Inr (Some k) \<and> k < 2
     \<and> is_card_playable hearts_table 1 (int k) = Inr True
     \<and> suit ([Card R3 Hearts, Card R9 Diamonds] ! k) = Hearts"
  using cpu_follows_policy [of "Suc 0" hearts_table Hearts] hearts_table_facts
  by auto

subsection \<open>When a play queues a resolution\<close>

text \<open>
  What \<^verbatim>\<open>attempt_play_card\<close> does about resolution, for an accepted play with nothing
  queued before: a tochoo is queued exactly when a suit is required and the seat holds
  none of it; a clean resolution is queued exactly when the seat holds the required suit,
  the seat to move after the play is the leader, and the trick has at least as many cards
  as there are active seats. A lead queues nothing.
\<close>

lemma play_as_follower_count:
  "i < length (players g) \<Longrightarrow>
     count_active_players (play_as_follower g i k s b) = count_active_players g"
  unfolding count_active_players_def
  by (rule count_active_same)
     (auto simp: play_as_follower_def Let_def map_update list_update_same_conv
           clear_pickup_def)

lemma hand_update_count:
  "length (filter is_active (ps[i := (ps ! i)\<lparr>hand := h\<rparr>])) = length (filter is_active ps)"
proof (rule count_active_same)
  show "map is_active (ps[i := (ps ! i)\<lparr>hand := h\<rparr>]) = map is_active ps"
    by (cases "i < length ps") (simp_all add: map_update list_update_same_conv list_update_beyond)
qed

lemma play_as_follower_on_suit:
  "active_index (play_as_follower g i k s True)
     = next_active_index ((players g)[i := (players g ! i)\<lparr>hand := take k (hand (players g ! i))
           @ drop (Suc k) (hand (players g ! i))\<rparr>]) i"
  "resolve_after_animation (play_as_follower g i k s True)
     = (if next_active_index ((players g)[i := (players g ! i)\<lparr>hand := take k (hand (players g ! i))
              @ drop (Suc k) (hand (players g ! i))\<rparr>]) i = Some (leader_index g)
           \<and> count_active_players g \<le> Suc (length (trick_cards g))
        then Some False else resolve_after_animation g)"
  by (simp_all add: play_as_follower_def Let_def count_active_players_def hand_update_count)

lemma play_as_follower_off_suit:
  "suit (hand (players g ! i) ! k) \<noteq> s \<Longrightarrow>
     resolve_after_animation (play_as_follower g i k s False) = Some True"
  by (simp add: play_as_follower_def Let_def)

lemma resolution_queued:
  assumes acc: "play_accepted g i ci g'" and none: "resolve_after_animation g = None"
  shows "(resolve_after_animation g' = Some True
            \<longleftrightarrow> (\<exists>s. required_suit g = Some s \<and> \<not> has_suit (players g ! i) s))
       \<and> (resolve_after_animation g' = Some False
            \<longleftrightarrow> (\<exists>s. required_suit g = Some s \<and> has_suit (players g ! i) s
                    \<and> active_index g' = Some (leader_index g)
                    \<and> count_active_players g' \<le> length (trick_cards g')))"
  using acc
proof (cases rule: play_accepted_cases)
  case (lead k)
  with none show ?thesis by simp
next
  case (follow k s)
  let ?p = "players g ! i"
  from py_index_bound [OF follow(5)] have k: "k < length (hand ?p)" .
  have c: "count_active_players g' = count_active_players g"
    using play_as_follower_count [OF follow(2)] follow(8) by simp
  have t: "length (trick_cards g') = Suc (length (trick_cards g))"
    using follow(8) by simp
  show ?thesis
  proof (cases "has_suit ?p s")
    case True
    with follow(8) have g': "g' = play_as_follower g i k s True" by simp
    show ?thesis
      unfolding c t using True follow(6) none
      by (simp add: g' play_as_follower_on_suit)
  next
    case False
    with k have "suit (hand ?p ! k) \<noteq> s"
      unfolding has_suit_def by (metis nth_mem)
    with False follow(6,8) play_as_follower_off_suit [of g i k s] show ?thesis by simp
  qed
qed

subsection \<open>Card indices outside the hand\<close>




subsection \<open>Pause\<close>

lemma toggle_pause_other_states:
  "state g \<noteq> Play \<Longrightarrow> state g \<noteq> ShowingTrick \<Longrightarrow> toggle_pause g = g"
  by (simp add: toggle_pause_def)

lemma toggle_pause_enters:
  "state g = Play \<or> state g = ShowingTrick \<Longrightarrow> \<not> paused g \<Longrightarrow>
     state (toggle_pause g) = Paused \<and> paused (toggle_pause g)"
  by (auto simp: toggle_pause_def Let_def)

text \<open>
  Claim C9 says that a second call of \<^verbatim>\<open>toggle_pause\<close> leaves the pause and restores the
  state that was paused. The guard of \<^verbatim>\<open>toggle_pause\<close> admits only the states \<^verbatim>\<open>play\<close> and
  \<^verbatim>\<open>showing_trick\<close>, so in the state \<^verbatim>\<open>paused\<close> the call does nothing: the table just
  dealt is in play, the first call pauses it, and the second call returns the paused table.
\<close>

theorem toggle_pause_twice_stays_paused:
  "reachable ending_deal
   \<and> state ending_deal = Play \<and> \<not> paused ending_deal
   \<and> state (toggle_pause ending_deal) = Paused
   \<and> toggle_pause (toggle_pause ending_deal) = toggle_pause ending_deal"
proof -
  have f: "state ending_deal = Play" "\<not> paused ending_deal" by code_simp+
  from toggle_pause_enters [of ending_deal] f
  have p: "state (toggle_pause ending_deal) = Paused" by simp
  from toggle_pause_other_states [of "toggle_pause ending_deal"] p
  have "toggle_pause (toggle_pause ending_deal) = toggle_pause ending_deal" by simp
  with ending_deal_reachable f p show ?thesis by simp
qed

end
